theory Spec2Isabelle
  imports Complex_Main
begin

section \<open>JavaScript primitives used by the visualizer\<close>

text \<open>
  Strings are lists of 8-bit code units (Latin-1); the process documents the tool reads
  are ASCII. Numbers that the layout code computes are integers or \<open>-Infinity\<close>
  (\<open>Math.max()\<close> of no arguments), so a number is \<open>Num n\<close> or \<open>NegInf\<close>.
\<close>

datatype jsnum = NegInf | Num int

fun js_add :: "jsnum \<Rightarrow> int \<Rightarrow> jsnum" where
  "js_add NegInf k = NegInf"
| "js_add (Num a) k = Num (a + k)"

text \<open>Multiplication by a positive constant (the only use: row heights 150 and 180).\<close>

fun js_scale :: "jsnum \<Rightarrow> int \<Rightarrow> jsnum" where
  "js_scale NegInf k = NegInf"
| "js_scale (Num a) k = Num (a * k)"

fun js_max :: "jsnum \<Rightarrow> jsnum \<Rightarrow> jsnum" where
  "js_max NegInf b = b"
| "js_max a NegInf = a"
| "js_max (Num a) (Num b) = Num (max a b)"

text \<open>\<open>Math.max(...xs)\<close>: \<open>-Infinity\<close> when \<open>xs\<close> is empty.\<close>

definition Math_max :: "jsnum list \<Rightarrow> jsnum" where
  "Math_max xs = foldr js_max xs NegInf"

text \<open>\<open>\s\<close> of a JavaScript regular expression, on code units below 256; \<open>trim\<close>
  removes the same characters.\<close>

definition is_space :: "char \<Rightarrow> bool" where
  "is_space c \<longleftrightarrow>
     c = CHR '' '' \<or> c = CHR 0x0A \<or> c = CHR 0x09 \<or> c = CHR 0x0D
     \<or> c = CHR 0x0B \<or> c = CHR 0x0C \<or> c = CHR 0xA0"

definition trim :: "string \<Rightarrow> string" where
  "trim s = rev (dropWhile is_space (rev (dropWhile is_space s)))"

text \<open>The rest of \<open>s\<close> after the prefix \<open>p\<close>, when \<open>s\<close> starts with \<open>p\<close>.\<close>

fun after_prefix :: "string \<Rightarrow> string \<Rightarrow> string option" where
  "after_prefix [] s = Some s"
| "after_prefix (p # ps) [] = None"
| "after_prefix (p # ps) (c # cs) = (if p = c then after_prefix ps cs else None)"

definition startsWith :: "string \<Rightarrow> string \<Rightarrow> bool" where
  "startsWith p s \<longleftrightarrow> after_prefix p s \<noteq> None"

text \<open>\<open>s.includes(p)\<close>.\<close>

fun str_includes :: "string \<Rightarrow> string \<Rightarrow> bool" where
  "str_includes p [] = (p = [])"
| "str_includes p (c # cs) = (startsWith p (c # cs) \<or> str_includes p cs)"

text \<open>\<open>s.replace(/^p/, '')\<close> for a literal prefix \<open>p\<close>.\<close>

definition replacePrefix :: "string \<Rightarrow> string \<Rightarrow> string" where
  "replacePrefix p s = (case after_prefix p s of Some r \<Rightarrow> r | None \<Rightarrow> s)"

definition toLowerChar :: "char \<Rightarrow> char" where
  "toLowerChar c =
     (let n = (of_char c :: nat) in
      if (65 \<le> n \<and> n \<le> 90) \<or> (192 \<le> n \<and> n \<le> 222 \<and> n \<noteq> 215)
      then char_of (n + 32) else c)"

definition toLowerCase :: "string \<Rightarrow> string" where
  "toLowerCase s = map toLowerChar s"

text \<open>A string in a boolean position: the empty string is falsy.\<close>

definition or_else :: "string option \<Rightarrow> string \<Rightarrow> string" where
  "or_else v d = (case v of None \<Rightarrow> d | Some s \<Rightarrow> if s = [] then d else s)"

definition truthy :: "string option \<Rightarrow> bool" where
  "truthy v = (case v of None \<Rightarrow> False | Some s \<Rightarrow> s \<noteq> [])"

section \<open>Actor colours (graph-generator)\<close>

text \<open>
  \<open>ACTOR_COLORS\<close> is an object literal, and \<open>getActorColor\<close> indexes it with an
  arbitrary string. A property read on an object literal also finds the members the
  literal inherits from \<open>Object.prototype\<close>; those are functions or objects, not strings.
\<close>

datatype jsvalue = JString string | JInherited string | JUndefined

definition object_prototype_members :: "string list" where
  "object_prototype_members =
     [''constructor'', ''__defineGetter__'', ''__defineSetter__'', ''hasOwnProperty'',
      ''__lookupGetter__'', ''__lookupSetter__'', ''isPrototypeOf'',
      ''propertyIsEnumerable'', ''toString'', ''valueOf'', ''__proto__'',
      ''toLocaleString'']"

definition ACTOR_COLORS :: "string \<Rightarrow> jsvalue" where
  "ACTOR_COLORS k =
     (if k = ''customer'' then JString ''#F97316''
      else if k = ''provider'' then JString ''#EC4899''
      else if k = ''operator'' then JString ''#10B981''
      else if k = ''system'' then JString ''#6B7280''
      else if k = ''default'' then JString ''#6B7280''
      else if k \<in> set object_prototype_members then JInherited k
      else JUndefined)"

text \<open>\<open>v || d\<close> for a looked-up property: only \<open>undefined\<close> and the empty string are
  falsy among the values the lookup can return.\<close>

definition value_or :: "jsvalue \<Rightarrow> jsvalue \<Rightarrow> jsvalue" where
  "value_or v d = (case v of JUndefined \<Rightarrow> d | JString s \<Rightarrow> (if s = [] then d else v) | _ \<Rightarrow> v)"

definition getActorColor :: "string \<Rightarrow> jsvalue" where
  "getActorColor actor =
     (let normalizedActor = replacePrefix ''actor.role/'' (toLowerCase actor)
      in value_or (ACTOR_COLORS normalizedActor) (ACTOR_COLORS ''default''))"

section \<open>Regular expressions of the parser (edn-parser)\<close>

text \<open>
  The parser works on the text with regular expressions. Each expression it uses is
  modelled by a matcher on the suffix that starts at one position, and \<open>search\<close> tries the
  positions from left to right as the regular-expression engine does. In every pattern
  below a greedy run is followed by a character outside the run's class, so the engine's
  backtracking never finds a match that the maximal run misses.
\<close>

fun search :: "(string \<Rightarrow> 'a option) \<Rightarrow> string \<Rightarrow> 'a option" where
  "search m [] = m []"
| "search m (c # cs) = (case m (c # cs) of Some r \<Rightarrow> Some r | None \<Rightarrow> search m cs)"

text \<open>\<open>\s+\<close> at the head of \<open>r\<close>: the rest after the run, or no match.\<close>

definition after_spaces1 :: "string \<Rightarrow> string option" where
  "after_spaces1 r = (case r of [] \<Rightarrow> None
     | c # cs \<Rightarrow> if is_space c then Some (dropWhile is_space cs) else None)"

text \<open>The character classes \<open>[^\s\n]\<close>, \<open>[^\s\n,]\<close> and \<open>[^\s\n,}]\<close>, by the characters
  they exclude.\<close>

definition stop_space :: "char \<Rightarrow> bool" where
  "stop_space c = is_space c"

definition stop_comma :: "char \<Rightarrow> bool" where
  "stop_comma c = (is_space c \<or> c = CHR '','')"

definition stop_brace :: "char \<Rightarrow> bool" where
  "stop_brace c = (is_space c \<or> c = CHR '','' \<or> c = CHR ''}'')"

text \<open>\<open>/KEY\s+:([^...]+)/\<close> at one position: the captured group.\<close>

definition kw_at :: "string \<Rightarrow> (char \<Rightarrow> bool) \<Rightarrow> string \<Rightarrow> string option" where
  "kw_at key stop s =
     (case after_prefix key s of None \<Rightarrow> None
      | Some r \<Rightarrow>
         (case after_spaces1 r of None \<Rightarrow> None
          | Some r1 \<Rightarrow>
             (case r1 of [] \<Rightarrow> None
              | c # r2 \<Rightarrow>
                 if c \<noteq> CHR '':'' then None
                 else (let cap = takeWhile (\<lambda>c. \<not> stop c) r2
                       in if cap = [] then None else Some cap))))"

definition match_kw :: "string \<Rightarrow> (char \<Rightarrow> bool) \<Rightarrow> string \<Rightarrow> string option" where
  "match_kw key stop s = search (kw_at key stop) s"

text \<open>\<open>OPEN([^C]+)C\<close> at the head of \<open>r\<close>: the captured group.\<close>

definition delimited :: "string \<Rightarrow> char \<Rightarrow> string \<Rightarrow> string option" where
  "delimited opn cl r =
     (case after_prefix opn r of None \<Rightarrow> None
      | Some r2 \<Rightarrow>
         (let body = takeWhile (\<lambda>c. c \<noteq> cl) r2; rest = dropWhile (\<lambda>c. c \<noteq> cl) r2
          in if body = [] \<or> rest = [] then None else Some body))"

text \<open>\<open>/KEY\s+OPEN([^C]+)C/\<close> at one position.\<close>

definition delim_at :: "string \<Rightarrow> string \<Rightarrow> char \<Rightarrow> string \<Rightarrow> string option" where
  "delim_at key opn cl s =
     (case after_prefix key s of None \<Rightarrow> None
      | Some r \<Rightarrow>
         (case after_spaces1 r of None \<Rightarrow> None
          | Some r1 \<Rightarrow> delimited opn cl r1))"

definition match_delim :: "string \<Rightarrow> string \<Rightarrow> char \<Rightarrow> string \<Rightarrow> string option" where
  "match_delim key opn cl s = search (delim_at key opn cl) s"

text \<open>\<open>/:transition\/from\s+(#{[^}]+}|:[^\s\n]+)/\<close> at one position. The two alternatives
  start with different characters, so at most one applies.\<close>

definition from_at :: "string \<Rightarrow> string option" where
  "from_at s =
     (case after_prefix '':transition/from'' s of None \<Rightarrow> None
      | Some r \<Rightarrow>
         (case after_spaces1 r of None \<Rightarrow> None
          | Some r1 \<Rightarrow>
             (case delimited ''#{'' (CHR ''}'') r1 of
                Some body \<Rightarrow> Some (''#{'' @ body @ ''}'')
              | None \<Rightarrow>
                 (case r1 of [] \<Rightarrow> None
                  | c # r2 \<Rightarrow>
                     if c \<noteq> CHR '':'' then None
                     else (let cap = takeWhile (\<lambda>c. \<not> is_space c) r2
                           in if cap = [] then None else Some (CHR '':'' # cap))))))"

text \<open>\<open>/:process\/transitions\s+\[(.*)\]/s\<close> at one position: with the \<open>s\<close> flag the greedy
  \<open>.*\<close> runs to the last \<open>]\<close> of the text.\<close>

definition transitions_at :: "string \<Rightarrow> string option" where
  "transitions_at s =
     (case after_prefix '':process/transitions'' s of None \<Rightarrow> None
      | Some r \<Rightarrow>
         (case after_spaces1 r of None \<Rightarrow> None
          | Some r1 \<Rightarrow>
             (case r1 of [] \<Rightarrow> None
              | c # r2 \<Rightarrow>
                 if c = CHR ''['' \<and> CHR '']'' \<in> set r2
                 then Some (rev (tl (dropWhile (\<lambda>c. c \<noteq> CHR '']'') (rev r2))))
                 else None)))"

text \<open>\<open>s.split(/\s+/)\<close>: a leading or trailing run of whitespace leaves an empty first
  or last piece.\<close>

function split_ws :: "string \<Rightarrow> string \<Rightarrow> string list" where
  "split_ws cur [] = [cur]"
| "split_ws cur (c # cs) =
     (if is_space c then cur # split_ws [] (dropWhile is_space cs)
      else split_ws (cur @ [c]) cs)"
  by pat_completeness auto
termination
  by (relation "measure (\<lambda>(cur, s). length s)")
     (auto simp: le_imp_less_Suc length_dropWhile_le)

text \<open>\<open>s.split(/(?=\s*LIT)/)\<close>: the lookahead is tried at every position after the
  start of the current piece, and a success there ends the piece.\<close>

definition lookahead :: "string \<Rightarrow> string \<Rightarrow> bool" where
  "lookahead lit s = startsWith lit (dropWhile is_space s)"

fun split_before :: "string \<Rightarrow> string \<Rightarrow> string \<Rightarrow> string list" where
  "split_before lit cur [] = [cur]"
| "split_before lit cur (c # cs) =
     (if cur \<noteq> [] \<and> lookahead lit (c # cs) then cur # split_before lit [c] cs
      else split_before lit (cur @ [c]) cs)"

text \<open>The keywords of a whitespace-separated list:
  \<open>.split(/\s+/).filter(s => s.trim() && s.startsWith(':')).map(s => s.substring(1))\<close>.\<close>

definition keywords_of :: "string \<Rightarrow> string list" where
  "keywords_of s =
     map tl (filter (\<lambda>w. trim w \<noteq> [] \<and> startsWith '':'' w) (split_ws [] s))"

text \<open>\<open>s.slice(a, b)\<close> for \<open>0 \<le> a \<le> b\<close>.\<close>

definition slice :: "string \<Rightarrow> nat \<Rightarrow> nat \<Rightarrow> string" where
  "slice s a b = take (b - a) (drop a s)"

text \<open>The loop of \<open>parseV3Transitions\<close> and \<open>parseV3Actions\<close>: the texts of the top-level
  \<open>{...}\<close> groups. \<open>bc\<close> is \<open>bracketCount\<close> and \<open>start\<close> is the start index, -1 when
  no group is open.\<close>

fun brace_groups :: "string \<Rightarrow> string \<Rightarrow> nat \<Rightarrow> int \<Rightarrow> int \<Rightarrow> string list" where
  "brace_groups whole [] i bc start = []"
| "brace_groups whole (c # cs) i bc start =
     (if c = CHR ''{'' then
        brace_groups whole cs (i + 1) (bc + 1) (if bc = 0 then int i else start)
      else if c = CHR ''}'' then
        (if bc - 1 = 0 \<and> start \<ge> 0
         then slice whole (nat start) (i + 1) # brace_groups whole cs (i + 1) (bc - 1) (- 1)
         else brace_groups whole cs (i + 1) (bc - 1) start)
      else brace_groups whole cs (i + 1) bc start)"

text \<open>The loop of \<open>extractBracketedContent\<close> after the opening bracket: \<open>n\<close> is
  \<open>bracketCount\<close> (at least 1 while the loop runs), \<open>acc\<close> the text read so far.\<close>

fun bracket_scan :: "nat \<Rightarrow> string \<Rightarrow> string \<Rightarrow> string option" where
  "bracket_scan n acc [] = None"
| "bracket_scan n acc (c # cs) =
     (let n' = (if c = CHR ''['' then n + 1 else if c = CHR '']'' then n - 1 else n)
      in if n' = 0 then Some acc else bracket_scan n' (acc @ [c]) cs)"

text \<open>\<open>new RegExp(key + "\\s*\\[")\<close> at one position: the text after the bracket.\<close>

definition bracket_open_at :: "string \<Rightarrow> string \<Rightarrow> string option" where
  "bracket_open_at key s =
     (case after_prefix key s of None \<Rightarrow> None
      | Some r \<Rightarrow>
         (case dropWhile is_space r of [] \<Rightarrow> None
          | c # r2 \<Rightarrow> if c = CHR ''['' then Some r2 else None))"

definition extractBracketedContent :: "string \<Rightarrow> string \<Rightarrow> string option" where
  "extractBracketedContent ednString key =
     (case search (bracket_open_at key) ednString of None \<Rightarrow> None
      | Some rest \<Rightarrow> bracket_scan 1 [] rest)"

text \<open>\<open>ednString.replace(/;.*$/gm, '')\<close>: from each \<open>;\<close> to the end of its line.\<close>

definition is_line_terminator :: "char \<Rightarrow> bool" where
  "is_line_terminator c \<longleftrightarrow> c = CHR 0x0A \<or> c = CHR 0x0D"

fun strip_comments :: "bool \<Rightarrow> string \<Rightarrow> string" where
  "strip_comments in_comment [] = []"
| "strip_comments in_comment (c # cs) =
     (if is_line_terminator c then c # strip_comments False cs
      else if in_comment \<or> c = CHR '';'' then strip_comments True cs
      else c # strip_comments False cs)"

section \<open>The parsed process (edn-parser)\<close>

datatype from_field = Single string | Many "string list"

record TransitionDefinition =
  transition_id :: string
  transition_from :: from_field
  transition_to :: string
  transition_actor :: string
  transition_actions :: "string list option"
  transition_notifications :: "string list option"

record V3Action =
  action_name :: string
  action_config :: "string option"

record V3TransitionDefinition =
  v3_name :: string
  v3_actor :: "string option"
  v3_actions :: "V3Action list option"
  v3_to :: "string option"
  v3_from :: "string option"

record V3NotificationDefinition =
  notification_name :: string
  notification_on :: "string option"
  notification_to :: "string option"
  notification_template :: "string option"

record TransactionProcess =
  process_id :: "string option"
  process_states :: "string list option"
  process_transitions :: "TransitionDefinition list option"
  format :: "string option"
  transitions :: "V3TransitionDefinition list option"
  notifications :: "V3NotificationDefinition list option"

text \<open>Every \<open>throw new Error(message)\<close> of the parser, by its message.\<close>

datatype error =
    UnrecognizedFormat
  | MissingProcessId
  | MissingProcessStates
  | MissingProcessTransitions
  | MissingTransitions
  | MissingTransitionName
  | MissingNotificationName
  | MissingTransitionID
  | MissingTransitionFrom
  | MissingTransitionTo
  | MissingTransitionActor

text \<open>The results of a list of attempts that did not throw: the \<open>try ... catch\<close> around
  each attempt logs a warning and goes on to the next.\<close>

fun successes :: "(error + 'a) list \<Rightarrow> 'a list" where
  "successes [] = []"
| "successes (Inl e # rs) = successes rs"
| "successes (Inr v # rs) = v # successes rs"

section \<open>Legacy (v2) format\<close>

definition parseTransition :: "string \<Rightarrow> error + TransitionDefinition" where
  "parseTransition transitionText =
     (case match_kw '':transition/id'' stop_space transitionText of
        None \<Rightarrow> Inl MissingTransitionID
      | Some idm \<Rightarrow>
         (case search from_at transitionText of
            None \<Rightarrow> Inl MissingTransitionFrom
          | Some fromContent \<Rightarrow>
             (case match_kw '':transition/to'' stop_space transitionText of
                None \<Rightarrow> Inl MissingTransitionTo
              | Some tom \<Rightarrow>
                 (case match_kw '':transition/actor'' stop_space transitionText of
                    None \<Rightarrow> Inl MissingTransitionActor
                  | Some actorm \<Rightarrow>
                     Inr \<lparr> transition_id = idm,
                           transition_from =
                             (if startsWith ''#{'' fromContent
                              then Many (keywords_of (butlast (drop 2 fromContent)))
                              else Single (tl fromContent)),
                           transition_to = tom,
                           transition_actor = actorm,
                           transition_actions =
                             map_option (\<lambda>m. map (replacePrefix ''action/'') (keywords_of m))
                               (match_delim '':transition/actions'' ''['' (CHR '']'')
                                  transitionText),
                           transition_notifications =
                             map_option
                               (\<lambda>m. map (replacePrefix ''notification/'') (keywords_of m))
                               (match_delim '':transition/notifications'' ''['' (CHR '']'')
                                  transitionText) \<rparr>))))"

text \<open>The pieces of the split that \<open>parseTransitions\<close> hands to \<open>parseTransition\<close>.\<close>

definition transition_pieces :: "string \<Rightarrow> string list" where
  "transition_pieces transitionsContent =
     filter (\<lambda>t. trim t \<noteq> [] \<and> str_includes '':transition/id'' t)
       (split_before ''{:transition/id'' [] transitionsContent)"

definition parseTransitions :: "string \<Rightarrow> TransitionDefinition list" where
  "parseTransitions transitionsContent =
     successes (map parseTransition (transition_pieces transitionsContent))"

definition parseV2Format :: "string \<Rightarrow> error + TransactionProcess" where
  "parseV2Format cleanEdn =
     (case match_kw '':process/id'' stop_space cleanEdn of
        None \<Rightarrow> Inl MissingProcessId
      | Some processId \<Rightarrow>
         (case match_delim '':process/states'' ''#{'' (CHR ''}'') cleanEdn of
            None \<Rightarrow> Inl MissingProcessStates
          | Some statesContent \<Rightarrow>
             (case search transitions_at cleanEdn of
                None \<Rightarrow> Inl MissingProcessTransitions
              | Some transitionsContent \<Rightarrow>
                 Inr \<lparr> process_id = Some processId,
                       process_states = Some (keywords_of statesContent),
                       process_transitions = Some (parseTransitions transitionsContent),
                       format = None,
                       transitions = None,
                       notifications = None \<rparr>)))"

section \<open>Modern (v3) format\<close>

text \<open>One \<open>{...}\<close> group of an \<open>:actions\<close> vector; a group with no \<open>:name\<close> gives no
  action.\<close>

definition parseV3Action :: "string \<Rightarrow> V3Action option" where
  "parseV3Action actionText =
     (case match_kw '':name'' stop_brace actionText of
        None \<Rightarrow> None
      | Some nm \<Rightarrow>
         Some \<lparr> action_name = replacePrefix ''action/'' nm,
                action_config =
                  (case match_delim '':config'' ''{'' (CHR ''}'') actionText of
                     None \<Rightarrow> None
                   | Some body \<Rightarrow> match_kw '':type'' stop_brace (''{'' @ body @ ''}'')) \<rparr>)"

definition parseV3Actions :: "string \<Rightarrow> V3Action list" where
  "parseV3Actions actionsContent =
     List.map_filter parseV3Action (brace_groups actionsContent actionsContent 0 0 (- 1))"

definition parseV3Transition :: "string \<Rightarrow> error + V3TransitionDefinition" where
  "parseV3Transition transitionText =
     (case match_kw '':name'' stop_comma transitionText of
        None \<Rightarrow> Inl MissingTransitionName
      | Some nm \<Rightarrow>
         Inr \<lparr> v3_name = nm,
               v3_actor =
                 map_option (replacePrefix ''actor.role/'')
                   (match_kw '':actor'' stop_comma transitionText),
               v3_actions =
                 (case extractBracketedContent transitionText '':actions'' of
                    None \<Rightarrow> None
                  | Some actionsContent \<Rightarrow>
                     if actionsContent = [] then None
                     else Some (parseV3Actions actionsContent)),
               v3_to =
                 map_option (replacePrefix ''state/'')
                   (match_kw '':to'' stop_brace transitionText),
               v3_from =
                 map_option (replacePrefix ''state/'')
                   (match_kw '':from'' stop_brace transitionText) \<rparr>)"

definition parseV3Transitions :: "string \<Rightarrow> V3TransitionDefinition list" where
  "parseV3Transitions transitionsContent =
     successes (map parseV3Transition
       (brace_groups transitionsContent transitionsContent 0 0 (- 1)))"

definition parseV3Notification :: "string \<Rightarrow> error + V3NotificationDefinition" where
  "parseV3Notification notificationText =
     (case match_kw '':name'' stop_comma notificationText of
        None \<Rightarrow> Inl MissingNotificationName
      | Some nm \<Rightarrow>
         Inr \<lparr> notification_name = nm,
               notification_on = match_kw '':on'' stop_comma notificationText,
               notification_to = match_kw '':to'' stop_comma notificationText,
               notification_template = match_kw '':template'' stop_brace notificationText \<rparr>)"

definition parseV3Notifications :: "string \<Rightarrow> V3NotificationDefinition list" where
  "parseV3Notifications notificationsContent =
     successes (map parseV3Notification
       (filter (\<lambda>t. trim t \<noteq> [] \<and> str_includes '':name'' t)
          (split_before ''{:name'' [] notificationsContent)))"

definition parseV3Format :: "string \<Rightarrow> error + TransactionProcess" where
  "parseV3Format cleanEdn =
     (case extractBracketedContent cleanEdn '':transitions'' of
        None \<Rightarrow> Inl MissingTransitions
      | Some transitionsMatch \<Rightarrow>
         if transitionsMatch = [] then Inl MissingTransitions
         else
           Inr \<lparr> process_id = None,
                 process_states = None,
                 process_transitions = None,
                 format = Some ''v3'',
                 transitions = Some (parseV3Transitions transitionsMatch),
                 notifications =
                   Some (case extractBracketedContent cleanEdn '':notifications'' of
                           None \<Rightarrow> []
                         | Some notificationsMatch \<Rightarrow>
                            if notificationsMatch = [] then []
                            else parseV3Notifications notificationsMatch) \<rparr>)"

section \<open>Format detection\<close>

text \<open>The \<open>catch\<close> of \<open>parseEdn\<close> rethrows every \<open>Error\<close>, and the parser throws nothing
  else, so the result is that of the selected path.\<close>

definition parseEdn :: "string \<Rightarrow> error + TransactionProcess" where
  "parseEdn ednString =
     (let cleanEdn = strip_comments False ednString;
          isV3Format = str_includes '':format :v3'' cleanEdn;
          isV2Format = (str_includes '':process/id'' cleanEdn
                        \<and> str_includes '':process/states'' cleanEdn)
      in if isV3Format then parseV3Format cleanEdn
         else if isV2Format then parseV2Format cleanEdn
         else Inl UnrecognizedFormat)"

section \<open>Graph data (graph-generator)\<close>

text \<open>
  Of a node and an edge the model keeps the fields that depend on the process; the
  remaining style fields are constants. \<open>markerEnd.color\<close> of an edge is the same
  expression as its \<open>style.stroke\<close>.
\<close>

record Node =
  node_id :: string
  node_x :: int
  node_y :: jsnum
  node_label :: string
  node_fontStyle :: string

record Edge =
  edge_id :: string
  source :: string
  target :: string
  edge_label :: string
  stroke :: jsvalue
  data_transitionId :: string
  data_actor :: string
  data_actions :: "string list"
  data_notifications :: "string list"
  data_from :: string
  data_to :: string

record GraphData =
  nodes :: "Node list"
  edges :: "Edge list"

text \<open>A number in a template literal: its decimal digits.\<close>

definition digit_char :: "nat \<Rightarrow> char" where
  "digit_char d = char_of (48 + d)"

fun String_of_nat :: "nat \<Rightarrow> string" where
  "String_of_nat n =
     (if n < 10 then [digit_char n]
      else String_of_nat (n div 10) @ [digit_char (n mod 10)])"

declare String_of_nat.simps [simp del]

definition formatStateLabel :: "string \<Rightarrow> string" where
  "formatStateLabel state = state"

text \<open>\<open>id.replace(/([A-Z])/g, '-$1').toLowerCase()\<close>.\<close>

definition kebab :: "string \<Rightarrow> string" where
  "kebab s =
     toLowerCase (concat (map (\<lambda>c. if 65 \<le> (of_char c :: nat) \<and> (of_char c :: nat) \<le> 90
                                     then [CHR ''-'', c] else [c]) s))"

definition formatTransitionLabel :: "TransitionDefinition \<Rightarrow> string" where
  "formatTransitionLabel transition =
     kebab (replacePrefix ''transition/'' (transition_id transition))"

definition formatV3TransitionLabel :: "V3TransitionDefinition \<Rightarrow> string" where
  "formatV3TransitionLabel transition =
     kebab (replacePrefix ''transition/'' (v3_name transition))"

subsection \<open>Sets and maps with insertion order\<close>

text \<open>A \<open>Set\<close> of strings, in insertion order, and a \<open>Map\<close> from strings to numbers as
  the list of its entries in insertion order.\<close>

definition set_add :: "string \<Rightarrow> string list \<Rightarrow> string list" where
  "set_add x xs = (if x \<in> set xs then xs else xs @ [x])"

definition add_if_truthy :: "string option \<Rightarrow> string list \<Rightarrow> string list" where
  "add_if_truthy v xs = (case v of None \<Rightarrow> xs | Some s \<Rightarrow> if s = [] then xs else set_add s xs)"

type_synonym levels = "(string \<times> jsnum) list"

definition has :: "levels \<Rightarrow> string \<Rightarrow> bool" where
  "has m k \<longleftrightarrow> map_of m k \<noteq> None"

definition map_set :: "string \<Rightarrow> jsnum \<Rightarrow> levels \<Rightarrow> levels" where
  "map_set k v m =
     (if has m k then map (\<lambda>(k', v'). if k' = k then (k', v) else (k', v')) m
      else m @ [(k, v)])"

text \<open>\<open>levels.get(k) || 0\<close>: zero is the only falsy level the map can hold.\<close>

definition get_or_0 :: "levels \<Rightarrow> string \<Rightarrow> jsnum" where
  "get_or_0 m k = (case map_of m k of None \<Rightarrow> Num 0 | Some v \<Rightarrow> v)"

fun indexOf :: "string list \<Rightarrow> string \<Rightarrow> int" where
  "indexOf [] x = - 1"
| "indexOf (y # ys) x =
     (if x = y then 0 else (let r = indexOf ys x in if r < 0 then - 1 else r + 1))"

subsection \<open>Levels by breadth-first search\<close>

text \<open>The \<open>forEach\<close> over the outgoing transitions of the current state: a target with
  no level yet gets the next level and joins the queue.\<close>

fun assign_levels :: "jsnum \<Rightarrow> string list \<Rightarrow> levels \<times> string list \<Rightarrow> levels \<times> string list" where
  "assign_levels currentLevel [] (levels, queue) = (levels, queue)"
| "assign_levels currentLevel (t # ts) (levels, queue) =
     (if has levels t then assign_levels currentLevel ts (levels, queue)
      else assign_levels currentLevel ts
             (map_set t (js_add currentLevel 1) levels, queue @ [t]))"

text \<open>Modern format: the targets of the transitions that leave \<open>currentState\<close>, where
  a transition with no \<open>from\<close> leaves \<open>initial\<close> and one with no \<open>to\<close> has no target.\<close>

definition truthy_targets :: "V3TransitionDefinition list \<Rightarrow> string list" where
  "truthy_targets ts = concat (map (\<lambda>t. add_if_truthy (v3_to t) []) ts)"

definition targetsV3 :: "V3TransitionDefinition list \<Rightarrow> string \<Rightarrow> string list" where
  "targetsV3 ts currentState =
     truthy_targets (filter (\<lambda>t. or_else (v3_from t) ''initial'' = currentState) ts)"

function bfsV3 ::
  "V3TransitionDefinition list \<Rightarrow> string list \<Rightarrow> string list \<Rightarrow> levels \<Rightarrow> levels" where
  "bfsV3 ts [] visited levels = levels"
| "bfsV3 ts (currentState # queue) visited levels =
     (if currentState \<in> set visited then bfsV3 ts queue visited levels
      else (case assign_levels (get_or_0 levels currentState) (targetsV3 ts currentState)
                   (levels, queue) of
              (levels', queue') \<Rightarrow> bfsV3 ts queue' (currentState # visited) levels'))"
  by pat_completeness auto

definition keys :: "levels \<Rightarrow> string set" where
  "keys m = fst ` set m"

lemma has_keys: "has m k \<longleftrightarrow> k \<in> keys m"
  by (simp add: has_def keys_def map_of_eq_None_iff)

lemma map_fst_update:
  "map fst (map (\<lambda>(k', v'). if k' = k then (k', v) else (k', v')) m) = map fst m"
  by (induction m) auto

lemma keys_map_set: "keys (map_set k v m) = insert k (keys m)"
proof (cases "has m k")
  case True
  have "keys (map_set k v m) = set (map fst (map_set k v m))" by (simp add: keys_def)
  also have "\<dots> = set (map fst m)"
    using True by (simp only: map_set_def if_True map_fst_update)
  also have "\<dots> = keys m" by (simp add: keys_def)
  finally show ?thesis using True by (auto simp: has_keys)
next
  case False
  then show ?thesis by (simp add: map_set_def keys_def)
qed

text \<open>Each target that gets a level leaves the set of targets without one, so the
  queue grows by no more than that set shrinks.\<close>

lemma assign_levels_measure:
  "finite U \<Longrightarrow> set tg \<subseteq> U \<Longrightarrow> assign_levels lv tg (L, Q) = (L', Q') \<Longrightarrow>
   2 * card (U - keys L') + length Q' \<le> 2 * card (U - keys L) + length Q"
proof (induction tg arbitrary: L Q)
  case Nil
  then show ?case by simp
next
  case (Cons t tg)
  show ?case
  proof (cases "has L t")
    case True
    with Cons show ?thesis by simp
  next
    case False
    then have nk: "t \<notin> keys L" by (simp add: has_keys)
    from Cons.prems have tU: "t \<in> U" by simp
    let ?L1 = "map_set t (js_add lv 1) L"
    from False Cons.prems have "assign_levels lv tg (?L1, Q @ [t]) = (L', Q')" by simp
    from Cons.IH[OF Cons.prems(1) _ this] Cons.prems(2)
    have le: "2 * card (U - keys L') + length Q' \<le> 2 * card (U - keys ?L1) + length (Q @ [t])"
      by simp
    have "U - keys ?L1 = (U - keys L) - {t}" by (auto simp: keys_map_set)
    moreover have "t \<in> U - keys L" using tU nk by simp
    ultimately have "card (U - keys ?L1) = card (U - keys L) - 1" "card (U - keys L) > 0"
      using Cons.prems(1) by (auto simp: card_gt_0_iff)
    with le show ?thesis by simp
  qed
qed

lemma targetsV3_subset: "set (targetsV3 ts c) \<subseteq> set (truthy_targets ts)"
  by (auto simp: targetsV3_def truthy_targets_def)

lemma assign_levels_decreasesV3:
  assumes "(L', Q') = assign_levels lv (targetsV3 ts c) (L, Q)"
  shows "2 * card (set (truthy_targets ts) - keys L') + length Q'
         < Suc (2 * card (set (truthy_targets ts) - keys L) + length Q)"
  using assign_levels_measure[OF _ targetsV3_subset assms[symmetric]] by simp

termination bfsV3
  by (relation "measure (\<lambda>(ts, queue, visited, levels).
          2 * card (set (truthy_targets ts) - keys levels) + length queue)")
     (simp_all add: assign_levels_decreasesV3)

text \<open>Legacy format: a transition leaves each of its from-states.\<close>

definition fromStates :: "TransitionDefinition \<Rightarrow> string list" where
  "fromStates t = (case transition_from t of Single s \<Rightarrow> [s] | Many ss \<Rightarrow> ss)"

definition targetsV2 :: "TransitionDefinition list \<Rightarrow> string \<Rightarrow> string list" where
  "targetsV2 ts currentState =
     map transition_to (filter (\<lambda>t. currentState \<in> set (fromStates t)) ts)"

function bfsV2 ::
  "TransitionDefinition list \<Rightarrow> string list \<Rightarrow> string list \<Rightarrow> levels \<Rightarrow> levels" where
  "bfsV2 ts [] visited levels = levels"
| "bfsV2 ts (currentState # queue) visited levels =
     (if currentState \<in> set visited then bfsV2 ts queue visited levels
      else (case assign_levels (get_or_0 levels currentState) (targetsV2 ts currentState)
                   (levels, queue) of
              (levels', queue') \<Rightarrow> bfsV2 ts queue' (currentState # visited) levels'))"
  by pat_completeness auto

lemma targetsV2_subset: "set (targetsV2 ts c) \<subseteq> transition_to ` set ts"
  by (auto simp: targetsV2_def)

lemma assign_levels_decreasesV2:
  assumes "(L', Q') = assign_levels lv (targetsV2 ts c) (L, Q)"
  shows "2 * card (transition_to ` set ts - keys L') + length Q'
         < Suc (2 * card (transition_to ` set ts - keys L) + length Q)"
  using assign_levels_measure[OF _ targetsV2_subset assms[symmetric]] by simp

termination bfsV2
  by (relation "measure (\<lambda>(ts, queue, visited, levels).
          2 * card (transition_to ` set ts - keys levels) + length queue)")
     (simp_all add: assign_levels_decreasesV2)

subsection \<open>Positions\<close>

text \<open>\<open>getImprovedTreePosition\<close>, in its steps: the levels after the search from
  \<open>initial\<close>, the placement of a state the search did not reach, the level of the state,
  the states on that level, and the coordinates. (The \<open>children\<close> map of the source is built and never
  read.)\<close>

definition searchV3 :: "V3TransitionDefinition list \<Rightarrow> levels" where
  "searchV3 ts = bfsV3 ts [''initial''] [] (map_set ''initial'' (Num 0) [])"

definition levelsV3 :: "string \<Rightarrow> V3TransitionDefinition list \<Rightarrow> levels" where
  "levelsV3 state ts =
     (let levels = searchV3 ts
      in if has levels state then levels
         else map_set state (js_add (Math_max (map snd levels)) 1) levels)"

definition levelV3 :: "string \<Rightarrow> V3TransitionDefinition list \<Rightarrow> jsnum" where
  "levelV3 state ts = get_or_0 (levelsV3 state ts) state"

definition statesAtLevelV3 ::
  "string \<Rightarrow> V3TransitionDefinition list \<Rightarrow> string list \<Rightarrow> string list" where
  "statesAtLevelV3 state ts states =
     filter (\<lambda>s. map_of (levelsV3 state ts) s = Some (levelV3 state ts)) states"

definition getImprovedTreePosition ::
  "string \<Rightarrow> V3TransitionDefinition list \<Rightarrow> string list \<Rightarrow> int \<times> jsnum" where
  "getImprovedTreePosition state ts states =
     (let level = levelV3 state ts;
          statesAtLevel = statesAtLevelV3 state ts states;
          positionInLevel = indexOf statesAtLevel state;
          horizontalSpacing = 280;
          verticalSpacing = 180;
          baseY = 100;
          totalWidth = (int (length statesAtLevel) - 1) * horizontalSpacing;
          baseX = 400 - totalWidth div 2
      in (positionInLevel * horizontalSpacing + baseX,
          js_add (js_scale level verticalSpacing) baseY))"

text \<open>\<open>getVerticalTreePositionV2\<close>, in the same steps. The roots are the declared
  states that no transition targets.\<close>

definition rootStates :: "TransitionDefinition list \<Rightarrow> string list \<Rightarrow> string list" where
  "rootStates ts states = filter (\<lambda>s. s \<notin> set (map transition_to ts)) states"

definition searchV2 :: "TransitionDefinition list \<Rightarrow> string list \<Rightarrow> levels" where
  "searchV2 ts states =
     (let roots = rootStates ts states
      in bfsV2 ts roots [] (foldl (\<lambda>m r. map_set r (Num 0) m) [] roots))"

definition levelsV2 :: "string \<Rightarrow> TransitionDefinition list \<Rightarrow> string list \<Rightarrow> levels" where
  "levelsV2 state ts states =
     (let levels = searchV2 ts states
      in if has levels state then levels
         else map_set state (js_add (Math_max (map snd levels)) 1) levels)"

definition levelV2 :: "string \<Rightarrow> TransitionDefinition list \<Rightarrow> string list \<Rightarrow> jsnum" where
  "levelV2 state ts states = get_or_0 (levelsV2 state ts states) state"

definition statesAtLevelV2 ::
  "string \<Rightarrow> TransitionDefinition list \<Rightarrow> string list \<Rightarrow> string list" where
  "statesAtLevelV2 state ts states =
     filter (\<lambda>s. map_of (levelsV2 state ts states) s = Some (levelV2 state ts states)) states"

definition getVerticalTreePositionV2 ::
  "string \<Rightarrow> TransitionDefinition list \<Rightarrow> string list \<Rightarrow> int \<times> jsnum" where
  "getVerticalTreePositionV2 state ts states =
     (let level = levelV2 state ts states;
          statesAtLevel = statesAtLevelV2 state ts states;
          positionInLevel = indexOf statesAtLevel state
      in (positionInLevel * 250 + 100, js_add (js_scale level 150) 50))"

subsection \<open>Nodes and edges\<close>

definition make_node :: "string \<Rightarrow> int \<times> jsnum \<Rightarrow> Node" where
  "make_node state pos =
     \<lparr> node_id = state, node_x = fst pos, node_y = snd pos,
       node_label = formatStateLabel state,
       node_fontStyle = (if state = ''initial'' then ''italic'' else ''normal'') \<rparr>"

text \<open>The states of a modern-format process: \<open>initial\<close> when some transition has no
  \<open>from\<close>, then the \<open>from\<close> and \<open>to\<close> of each transition in order.\<close>

definition statesV3 :: "V3TransitionDefinition list \<Rightarrow> string list" where
  "statesV3 ts =
     foldl (\<lambda>stateSet t. add_if_truthy (v3_to t) (add_if_truthy (v3_from t) stateSet))
       (if filter (\<lambda>t. \<not> truthy (v3_from t)) ts \<noteq> [] then set_add ''initial'' [] else [])
       ts"

text \<open>The edge of one transition, none when it has no \<open>to\<close>.\<close>

definition edgesV3_of :: "nat \<times> V3TransitionDefinition \<Rightarrow> Edge list" where
  "edgesV3_of it =
     (case it of (transitionIndex, transition) \<Rightarrow>
        (let fromState = or_else (v3_from transition) ''initial'' in
         case v3_to transition of
           None \<Rightarrow> []
         | Some toState \<Rightarrow>
             if toState = [] then []
             else [\<lparr> edge_id = v3_name transition @ ''-'' @ String_of_nat transitionIndex,
                     source = fromState,
                     target = toState,
                     edge_label = formatV3TransitionLabel transition,
                     stroke = getActorColor (or_else (v3_actor transition) ''system''),
                     data_transitionId = v3_name transition,
                     data_actor = or_else (v3_actor transition) ''system'',
                     data_actions =
                       (case v3_actions transition of None \<Rightarrow> []
                        | Some as \<Rightarrow> map action_name as),
                     data_notifications = [],
                     data_from = fromState,
                     data_to = toState \<rparr>]))"

definition generateV3GraphData :: "TransactionProcess \<Rightarrow> GraphData" where
  "generateV3GraphData processData =
     (let ts = (case transitions processData of None \<Rightarrow> [] | Some l \<Rightarrow> l);
          states = statesV3 ts
      in \<lparr> nodes = map (\<lambda>state. make_node state (getImprovedTreePosition state ts states))
                     states,
            edges = concat (map edgesV3_of (enumerate 0 ts)) \<rparr>)"

text \<open>The edges of one legacy transition: one for each entry of its from-states.\<close>

definition edgesV2_of :: "TransitionDefinition \<Rightarrow> Edge list" where
  "edgesV2_of transition =
     map (\<lambda>(fromIndex, fromState).
            \<lparr> edge_id = transition_id transition @ ''-'' @ String_of_nat fromIndex,
              source = fromState,
              target = transition_to transition,
              edge_label = formatTransitionLabel transition,
              stroke = getActorColor (or_else (Some (transition_actor transition)) ''system''),
              data_transitionId = transition_id transition,
              data_actor = transition_actor transition,
              data_actions =
                (case transition_actions transition of None \<Rightarrow> [] | Some l \<Rightarrow> l),
              data_notifications =
                (case transition_notifications transition of None \<Rightarrow> [] | Some l \<Rightarrow> l),
              data_from = fromState,
              data_to = transition_to transition \<rparr>)
         (enumerate 0 (fromStates transition))"

definition generateV2GraphData :: "TransactionProcess \<Rightarrow> GraphData" where
  "generateV2GraphData processData =
     (let states = (case process_states processData of None \<Rightarrow> [] | Some l \<Rightarrow> l);
          ts = (case process_transitions processData of None \<Rightarrow> [] | Some l \<Rightarrow> l)
      in \<lparr> nodes = map (\<lambda>state. make_node state (getVerticalTreePositionV2 state ts states))
                     states,
            edges = concat (map edgesV2_of ts) \<rparr>)"

definition generateGraphData :: "TransactionProcess \<Rightarrow> GraphData" where
  "generateGraphData processData =
     (if format processData = Some ''v3'' then generateV3GraphData processData
      else generateV2GraphData processData)"

section \<open>Example documents\<close>

definition example_mixed :: string where
  "example_mixed = ''{:process/id :p :process/states #{:a} :meta {:format :v3} :transitions [{:name :t :to :state/a}]}''"

definition example_commented :: string where
  "example_commented = ''{:process/id :p ; :format :v3'' @ [CHR 0x0A] @
     '' :process/states #{:a} :process/transitions []}''"

definition example_actor_constructor :: string where
  "example_actor_constructor =
     ''{:format :v3 :transitions [{:name :t :actor :actor.role/constructor :to :state/a}]}''"

definition example_unclosed :: string where
  "example_unclosed = ''{:format :v3 :transitions [{:name :t :to :state/a}]''"

definition example_mismatched :: string where
  "example_mismatched = ''{:format :v3 :transitions [{:name :t :to :state/a]}''"

definition example_odd_map :: string where
  "example_odd_map = ''{:format :v3 :transitions [{:name :t :to}]}''"

definition example_no_sections :: string where
  "example_no_sections = ''{:format :v3}''"









definition example_three_from :: TransitionDefinition where
  "example_three_from =
     \<lparr> transition_id = ''transition/cancel'',
       transition_from = Many [''pending'', ''accepted'', ''paid''],
       transition_to = ''cancelled'',
       transition_actor = ''actor.role/operator'',
       transition_actions = Some [''refund''],
       transition_notifications = None \<rparr>"

definition example_undeclared :: string where
  "example_undeclared =
     ''{:process/id :p :process/states #{:a} :process/transitions '' @
     ''[{:transition/id :t :transition/from :a :transition/to :b :transition/actor :c }]}''"

definition example_v3_process :: TransactionProcess where
  "example_v3_process =
     \<lparr> process_id = None, process_states = None, process_transitions = None,
       format = Some ''v3'',
       transitions = Some
         [\<lparr> v3_name = ''transition/inquire'', v3_actor = Some ''customer'',
            v3_actions = None, v3_to = Some ''inquiry'', v3_from = None \<rparr>,
          \<lparr> v3_name = ''transition/pay'', v3_actor = None,
            v3_actions = None, v3_to = Some ''pending-payment'',
            v3_from = Some ''inquiry'' \<rparr>],
       notifications = Some [] \<rparr>"

definition example_cycle :: string where
  "example_cycle =
     ''{:process/id :p :process/states #{:A :B} :process/transitions '' @
     ''[{:transition/id :t1 :transition/from :A :transition/to :B :transition/actor :c } '' @
     ''{:transition/id :t2 :transition/from :B :transition/to :A :transition/actor :c }]}''"

definition example_two_entries :: "V3TransitionDefinition list" where
  "example_two_entries =
     [\<lparr> v3_name = ''transition/inquire'', v3_actor = Some ''customer'',
         v3_actions = None, v3_to = Some ''inquiry'', v3_from = None \<rparr>,
      \<lparr> v3_name = ''transition/request'', v3_actor = Some ''customer'',
         v3_actions = None, v3_to = Some ''pending'', v3_from = None \<rparr>,
      \<lparr> v3_name = ''transition/pay'', v3_actor = None,
         v3_actions = None, v3_to = Some ''pending'', v3_from = Some ''inquiry'' \<rparr>]"


section \<open>The coordinates of the specification\<close>

text \<open>
  The formula of the specification, for comparison with the positions that the code
  computes: in a layer of \<open>k\<close> nodes the node with index \<open>i\<close> has
  \<open>x = axisX + (i - (k - 1) / 2) * spacingX\<close>, and a node of layer \<open>l\<close> has
  \<open>y = l * rowHeight\<close>.
\<close>

definition spec_x :: "real \<Rightarrow> real \<Rightarrow> nat \<Rightarrow> int \<Rightarrow> int \<Rightarrow> bool" where
  "spec_x axisX spacingX k i x \<longleftrightarrow>
     real_of_int x = axisX + (real_of_int i - (real k - 1) / 2) * spacingX"

definition spec_y :: "real \<Rightarrow> jsnum \<Rightarrow> jsnum \<Rightarrow> bool" where
  "spec_y rowHeight layer y \<longleftrightarrow>
     (case layer of
        NegInf \<Rightarrow> False
      | Num l \<Rightarrow> (case y of NegInf \<Rightarrow> False
                  | Num v \<Rightarrow> real_of_int v = real_of_int l * rowHeight))"

text \<open>Every level of a level map is a number that is not negative.\<close>

definition nonneg_levels :: "levels \<Rightarrow> bool" where
  "nonneg_levels m \<longleftrightarrow> (\<forall>kv \<in> set m. \<exists>l \<ge> 0. snd kv = Num l)"

definition example_flat_states :: "string list" where
  "example_flat_states = [''a'', ''b'', ''c'']"

definition example_flat_transitions :: "TransitionDefinition list" where
  "example_flat_transitions =
     [\<lparr> transition_id = ''t'', transition_from = Single ''a'', transition_to = ''c'',
         transition_actor = ''customer'', transition_actions = None,
         transition_notifications = None \<rparr>]"

section \<open>Occurrences in the text\<close>

text \<open>
  What it is for a regular expression of the parser to match, said on the text and not
  on the matcher. \<open>has_keyword key stop t\<close>: somewhere in \<open>t\<close> the key is followed by one
  or more whitespace characters, a colon and a character outside the excluded class
  (\<open>/KEY\s+:([^...]+)/\<close>). \<open>has_delimited key opn cl t\<close>: somewhere the key is followed by
  whitespace, the opening text, one or more characters other than \<open>cl\<close>, and \<open>cl\<close>
  (\<open>/KEY\s+OPEN([^C]+)C/\<close>). \<open>has_transitions_vector t\<close>: somewhere
  \<open>:process/transitions\<close> is followed by whitespace and a \<open>[\<close> with a \<open>]\<close> anywhere after
  it (\<open>/:process\/transitions\s+\[(.*)\]/s\<close>).
\<close>

definition spaces :: "string \<Rightarrow> bool" where
  "spaces ws \<longleftrightarrow> list_all is_space ws"

definition has_keyword :: "string \<Rightarrow> (char \<Rightarrow> bool) \<Rightarrow> string \<Rightarrow> bool" where
  "has_keyword key stop t \<longleftrightarrow>
     (\<exists>pre ws x r. t = pre @ key @ ws @ CHR '':'' # x # r \<and> ws \<noteq> [] \<and> spaces ws \<and> \<not> stop x)"

definition has_delimited :: "string \<Rightarrow> string \<Rightarrow> char \<Rightarrow> string \<Rightarrow> bool" where
  "has_delimited key opn cl t \<longleftrightarrow>
     (\<exists>pre ws body post. t = pre @ key @ ws @ opn @ body @ cl # post
        \<and> ws \<noteq> [] \<and> spaces ws \<and> body \<noteq> [] \<and> cl \<notin> set body)"

definition has_transitions_vector :: "string \<Rightarrow> bool" where
  "has_transitions_vector t \<longleftrightarrow>
     (\<exists>pre ws r. t = pre @ '':process/transitions'' @ ws @ CHR ''['' # r
        \<and> ws \<noteq> [] \<and> spaces ws \<and> CHR '']'' \<in> set r)"

text \<open>
  For \<open>extractBracketedContent\<close>: \<open>first_bracket key t rest\<close> says that \<open>rest\<close> is what
  follows the first place of \<open>t\<close> where the key, optional whitespace and \<open>[\<close> occur;
  \<open>closed_bracket rest body\<close> says that \<open>body\<close> is the part of \<open>rest\<close> before the \<open>]\<close> that
  closes that \<open>[\<close>, counting \<open>[\<close> and \<open>]\<close> and nothing else.
\<close>

definition depth :: "string \<Rightarrow> int" where
  "depth s = int (count_list s (CHR ''['')) - int (count_list s (CHR '']''))"

definition first_bracket :: "string \<Rightarrow> string \<Rightarrow> string \<Rightarrow> bool" where
  "first_bracket key t rest \<longleftrightarrow>
     (\<exists>pre ws. t = pre @ key @ ws @ CHR ''['' # rest \<and> spaces ws
        \<and> (\<forall>pre' ws' rest'. t = pre' @ key @ ws' @ CHR ''['' # rest' \<and> spaces ws'
              \<longrightarrow> length pre \<le> length pre'))"

definition closed_bracket :: "string \<Rightarrow> string \<Rightarrow> bool" where
  "closed_bracket rest body \<longleftrightarrow>
     (\<exists>post. rest = body @ CHR '']'' # post) \<and> depth body = 0
     \<and> (\<forall>j \<le> length body. 0 \<le> depth (take j body))"

section \<open>Further example documents\<close>

text \<open>
  Two \<open>:transitions\<close> vectors of which the first is empty; a legacy document whose states
  are not written as a set; a legacy process with one transition from three states; the
  process of a modern document whose first transition has no \<open>:to\<close>; a legacy document
  with a transition without \<open>:transition/from\<close> and one with an empty set of from-states;
  a legacy document in which a state is written twice in the set of from-states.
\<close>

definition example_two_vectors :: string where
  "example_two_vectors = ''{:format :v3 :transitions [] :transitions [{:name :t :to :state/a}]}''"

definition example_legacy_no_states :: string where
  "example_legacy_no_states = ''{:process/id :p :process/states [] :process/transitions []}''"

definition example_three_from_process :: TransactionProcess where
  "example_three_from_process =
     \<lparr> process_id = Some ''p'',
       process_states = Some [''pending'', ''accepted'', ''paid'', ''cancelled''],
       process_transitions = Some [example_three_from],
       format = None, transitions = None, notifications = None \<rparr>"



definition example_duplicate_from :: string where
  "example_duplicate_from =
     ''{:process/id :p :process/states #{:a :b} :process/transitions '' @
     ''[{:transition/id :t :transition/from #{:a :a} :transition/to :b :transition/actor :c }]}''"

section \<open>Properties\<close>


text \<open>
  Claim C9. The colour of an actor is meant to be a colour string for every actor name,
  with the default for unknown names. At the actor name \<open>constructor\<close> the lookup finds the
  member inherited from \<open>Object.prototype\<close>, which is truthy, so the result is that member
  and not the default colour. A modern document with the actor
  \<open>:actor.role/constructor\<close> reaches this: the stroke of its edge is that member.
\<close>

theorem getActorColor_constructor:
  "getActorColor ''constructor'' = JInherited ''constructor''
   \<and> (case parseEdn example_actor_constructor of
        Inl e \<Rightarrow> False
      | Inr p \<Rightarrow> map data_actor (edges (generateGraphData p)) = [''constructor'']
               \<and> map stroke (edges (generateGraphData p)) = [JInherited ''constructor''])"
  by code_simp


subsection \<open>Strings\<close>


lemma after_prefix_iff: "after_prefix p s = Some r \<longleftrightarrow> s = p @ r"
  by (induction p s rule: after_prefix.induct) auto

lemma startsWith_iff: "startsWith p s \<longleftrightarrow> (\<exists>r. s = p @ r)"
  by (auto simp: startsWith_def after_prefix_iff)

lemma str_includes_iff: "str_includes p s \<longleftrightarrow> (\<exists>a b. s = a @ p @ b)"
proof (induction s)
  case Nil
  then show ?case by auto
next
  case (Cons c cs)
  have "(\<exists>a b. c # cs = a @ p @ b) \<longleftrightarrow> (\<exists>b. c # cs = p @ b) \<or> (\<exists>a b. cs = a @ p @ b)"
    (is "?L \<longleftrightarrow> ?R")
  proof
    assume ?L
    then obtain a b where ab: "c # cs = a @ p @ b" by blast
    show ?R
    proof (cases a)
      case Nil
      with ab show ?thesis by auto
    next
      case (Cons x a')
      with ab have "cs = a' @ p @ b" by simp
      then show ?thesis by blast
    qed
  next
    assume ?R
    then show ?L
    proof
      assume "\<exists>b. c # cs = p @ b"
      then obtain b where "c # cs = [] @ p @ b" by auto
      then show ?L by blast
    next
      assume "\<exists>a b. cs = a @ p @ b"
      then obtain a b where "c # cs = (c # a) @ p @ b" by auto
      then show ?L by blast
    qed
  qed
  with Cons show ?case by (simp add: startsWith_iff)
qed

lemma parseV3Format_result:
  "parseV3Format c = Inl MissingTransitions \<or> (\<exists>p. parseV3Format c = Inr p \<and> format p = Some ''v3'')"
  by (simp add: parseV3Format_def split: option.splits)

lemma parseV2Format_result:
  "parseV2Format c \<in> {Inl MissingProcessId, Inl MissingProcessStates, Inl MissingProcessTransitions}
   \<or> (\<exists>p. parseV2Format c = Inr p \<and> format p = None)"
  by (simp add: parseV2Format_def split: option.splits)

lemma parseV3Format_neq_parseV2Format: "parseV3Format c \<noteq> parseV2Format c'"
  using parseV3Format_result[of c] parseV2Format_result[of c'] by auto

lemma parseV2Format_recognized: "parseV2Format c \<noteq> Inl UnrecognizedFormat"
  using parseV2Format_result[of c] by auto

subsection \<open>Format detection\<close>

text \<open>
  Claim C10. \<open>parseEdn\<close> takes the modern path whenever the text without its comments
  contains \<open>:format :v3\<close> anywhere (\<open>str_includes\<close> is plain substring containment, see
  \<open>str_includes_iff\<close>), also when the legacy keys are present; it takes the legacy path
  when that substring is absent and both \<open>:process/id\<close> and \<open>:process/states\<close> occur, and
  only then.
\<close>

theorem parseEdn_dispatch:
  "(str_includes '':format :v3'' (strip_comments False s)
      \<longrightarrow> parseEdn s = parseV3Format (strip_comments False s))
   \<and> (\<not> str_includes '':format :v3'' (strip_comments False s)
        \<and> str_includes '':process/id'' (strip_comments False s)
        \<and> str_includes '':process/states'' (strip_comments False s)
      \<longrightarrow> parseEdn s = parseV2Format (strip_comments False s))
   \<and> (parseEdn s = parseV2Format (strip_comments False s)
      \<longrightarrow> \<not> str_includes '':format :v3'' (strip_comments False s)
          \<and> str_includes '':process/id'' (strip_comments False s)
          \<and> str_includes '':process/states'' (strip_comments False s))"
proof (intro conjI impI)
  assume "parseEdn s = parseV2Format (strip_comments False s)"
  then show "\<not> str_includes '':format :v3'' (strip_comments False s)"
    and "str_includes '':process/id'' (strip_comments False s)"
    and "str_includes '':process/states'' (strip_comments False s)"
    using parseV3Format_neq_parseV2Format parseV2Format_recognized
    by (auto simp: parseEdn_def Let_def split: if_splits)
qed (simp_all add: parseEdn_def)

text \<open>A document with the legacy keys and a nested \<open>:format :v3\<close> goes the modern way;
  one whose only \<open>:format :v3\<close> is in a comment goes the legacy way.\<close>

theorem parseEdn_dispatch_witness:
  "str_includes '':process/id'' (strip_comments False example_mixed)
   \<and> str_includes '':process/states'' (strip_comments False example_mixed)
   \<and> parseEdn example_mixed = parseV3Format (strip_comments False example_mixed)
   \<and> str_includes '':format :v3'' example_commented
   \<and> parseEdn example_commented = parseV2Format (strip_comments False example_commented)"
proof -
  have a: "str_includes '':format :v3'' (strip_comments False example_mixed)" by code_simp
  have b: "str_includes '':process/id'' (strip_comments False example_mixed)" by code_simp
  have c: "str_includes '':process/states'' (strip_comments False example_mixed)" by code_simp
  have d: "\<not> str_includes '':format :v3'' (strip_comments False example_commented)
           \<and> str_includes '':process/id'' (strip_comments False example_commented)
           \<and> str_includes '':process/states'' (strip_comments False example_commented)"
    by code_simp
  have e: "str_includes '':format :v3'' example_commented" by code_simp
  note m = parseEdn_dispatch[of example_mixed, THEN conjunct1, THEN mp, OF a]
  note l = parseEdn_dispatch[of example_commented, THEN conjunct2, THEN conjunct1, THEN mp, OF d]
  from b c m e l show ?thesis by blast
qed




subsection \<open>The matchers, read as occurrences in the text\<close>

text \<open>
  Each matcher of the model finds a match exactly when the text has the occurrence that
  its regular expression describes, and \<open>extractBracketedContent\<close> returns exactly the
  body of the first bracket of its key when that bracket is closed.
\<close>

lemma search_None_iff: "search m s = None \<longleftrightarrow> (\<forall>pre suf. s = pre @ suf \<longrightarrow> m suf = None)"
proof (induction s)
  case Nil
  then show ?case by simp
next
  case (Cons c cs)
  have "(\<forall>pre suf. c # cs = pre @ suf \<longrightarrow> m suf = None)
        \<longleftrightarrow> m (c # cs) = None \<and> (\<forall>pre suf. cs = pre @ suf \<longrightarrow> m suf = None)"
    by (auto simp: Cons_eq_append_conv)
  with Cons show ?case by (auto split: option.splits)
qed

lemma search_Some_iff:
  "search m s = Some r \<longleftrightarrow>
     (\<exists>pre suf. s = pre @ suf \<and> m suf = Some r
        \<and> (\<forall>pre' suf'. s = pre' @ suf' \<and> length pre' < length pre \<longrightarrow> m suf' = None))"
proof (induction s)
  case Nil
  then show ?case by auto
next
  case (Cons c cs)
  show ?case
  proof (cases "m (c # cs)")
    case (Some v)
    have "(\<exists>pre suf. c # cs = pre @ suf \<and> m suf = Some r
        \<and> (\<forall>pre' suf'. c # cs = pre' @ suf' \<and> length pre' < length pre \<longrightarrow> m suf' = None))
      \<longleftrightarrow> v = r" (is "?R \<longleftrightarrow> _")
    proof
      assume ?R
      then obtain pre suf where p: "c # cs = pre @ suf" "m suf = Some r"
        "\<forall>pre' suf'. c # cs = pre' @ suf' \<and> length pre' < length pre \<longrightarrow> m suf' = None"
        by blast
      show "v = r"
      proof (cases pre)
        case Nil
        with p Some show ?thesis by simp
      next
        case (Cons a list)
        with p(3) have "m (c # cs) = None" by (auto dest: spec[of _ "[]"])
        with Some show ?thesis by simp
      qed
    next
      assume "v = r"
      with Some have "c # cs = [] @ (c # cs) \<and> m (c # cs) = Some r
        \<and> (\<forall>pre' suf'. c # cs = pre' @ suf' \<and> length pre' < length ([]::string)
              \<longrightarrow> m suf' = None)"
        by simp
      then show ?R by blast
    qed
    with Some show ?thesis by simp
  next
    case None
    have "(\<exists>pre suf. c # cs = pre @ suf \<and> m suf = Some r
        \<and> (\<forall>pre' suf'. c # cs = pre' @ suf' \<and> length pre' < length pre \<longrightarrow> m suf' = None))
      \<longleftrightarrow> (\<exists>pre suf. cs = pre @ suf \<and> m suf = Some r
        \<and> (\<forall>pre' suf'. cs = pre' @ suf' \<and> length pre' < length pre \<longrightarrow> m suf' = None))"
      (is "?L \<longleftrightarrow> ?R")
    proof
      assume ?L
      then obtain pre suf where p: "c # cs = pre @ suf" "m suf = Some r"
        "\<forall>pre' suf'. c # cs = pre' @ suf' \<and> length pre' < length pre \<longrightarrow> m suf' = None"
        by blast
      from p None obtain pre1 where pre: "pre = c # pre1" "cs = pre1 @ suf"
        by (cases pre) auto
      have "\<forall>pre' suf'. cs = pre' @ suf' \<and> length pre' < length pre1 \<longrightarrow> m suf' = None"
      proof (intro allI impI)
        fix pre' suf' assume "cs = pre' @ suf' \<and> length pre' < length pre1"
        then have "c # cs = (c # pre') @ suf' \<and> length (c # pre') < length pre"
          using pre by simp
        with p(3) show "m suf' = None" by blast
      qed
      with pre p(2) show ?R by blast
    next
      assume ?R
      then obtain pre suf where p: "cs = pre @ suf" "m suf = Some r"
        "\<forall>pre' suf'. cs = pre' @ suf' \<and> length pre' < length pre \<longrightarrow> m suf' = None"
        by blast
      have "\<forall>pre' suf'. c # cs = pre' @ suf' \<and> length pre' < length (c # pre)
              \<longrightarrow> m suf' = None"
      proof (intro allI impI)
        fix pre' suf' assume a: "c # cs = pre' @ suf' \<and> length pre' < length (c # pre)"
        show "m suf' = None"
        proof (cases pre')
          case Nil
          with a None show ?thesis by simp
        next
          case (Cons x pre2)
          with a have "cs = pre2 @ suf' \<and> length pre2 < length pre" by simp
          with p(3) show ?thesis by blast
        qed
      qed
      moreover have "c # cs = (c # pre) @ suf" using p(1) by simp
      ultimately show ?L using p(2) by blast
    qed
    with None Cons show ?thesis by simp
  qed
qed

lemma dropWhile_spaces:
  "spaces ws \<Longrightarrow> r = [] \<or> \<not> is_space (hd r) \<Longrightarrow> dropWhile is_space (ws @ r) = r"
  by (cases r) (auto simp: spaces_def list_all_iff dropWhile_append2)

lemma after_spaces1_append:
  "ws \<noteq> [] \<Longrightarrow> spaces ws \<Longrightarrow> r = [] \<or> \<not> is_space (hd r) \<Longrightarrow> after_spaces1 (ws @ r) = Some r"
  by (cases ws) (auto simp: after_spaces1_def dropWhile_spaces spaces_def)

lemma after_spaces1_SomeD:
  assumes "after_spaces1 r = Some r1"
  shows "\<exists>ws. r = ws @ r1 \<and> ws \<noteq> [] \<and> spaces ws \<and> (r1 = [] \<or> \<not> is_space (hd r1))"
proof -
  from assms obtain c cs where r: "r = c # cs" "is_space c" "r1 = dropWhile is_space cs"
    by (auto simp: after_spaces1_def split: list.splits if_splits)
  let ?ws = "c # takeWhile is_space cs"
  have "r = ?ws @ r1" using r by simp
  moreover have "spaces ?ws" using r(2) by (auto simp: spaces_def list_all_iff dest: set_takeWhileD)
  moreover have "r1 = [] \<or> \<not> is_space (hd r1)" using r(3) hd_dropWhile[of is_space cs] by auto
  ultimately show ?thesis by blast
qed

lemma not_space_colon: "\<not> is_space (CHR '':'')" "\<not> is_space (CHR ''['')"
  "\<not> is_space (CHR ''#'')" "\<not> is_space (CHR ''{'')"
  by (simp_all add: is_space_def)

lemma kw_at_iff:
  "kw_at key stop s \<noteq> None \<longleftrightarrow>
     (\<exists>ws x r. s = key @ ws @ CHR '':'' # x # r \<and> ws \<noteq> [] \<and> spaces ws \<and> \<not> stop x)"
  (is "?L \<longleftrightarrow> ?R")
proof
  assume ?L
  then obtain r r1 r2 where a: "after_prefix key s = Some r" "after_spaces1 r = Some r1"
    "r1 = CHR '':'' # r2" "takeWhile (\<lambda>c. \<not> stop c) r2 \<noteq> []"
    by (auto simp: kw_at_def Let_def split: option.splits list.splits if_splits)
  from a(4) obtain x r3 where x: "r2 = x # r3" "\<not> stop x"
    by (cases r2) (auto split: if_splits)
  from after_spaces1_SomeD[OF a(2)] obtain ws where "r = ws @ r1" "ws \<noteq> []" "spaces ws"
    by blast
  with a(1,3) x show ?R by (auto simp: after_prefix_iff)
next
  assume ?R
  then obtain ws x r where a: "s = key @ ws @ CHR '':'' # x # r" "ws \<noteq> []" "spaces ws"
    "\<not> stop x" by blast
  have "after_prefix key s = Some (ws @ CHR '':'' # x # r)"
    using a(1) by (simp add: after_prefix_iff)
  moreover have "after_spaces1 (ws @ CHR '':'' # x # r) = Some (CHR '':'' # x # r)"
    using a(2,3) by (simp add: after_spaces1_append not_space_colon)
  ultimately show ?L using a(4) by (simp add: kw_at_def)
qed

lemma match_kw_iff: "match_kw key stop t \<noteq> None \<longleftrightarrow> has_keyword key stop t"
proof
  assume "match_kw key stop t \<noteq> None"
  then obtain pre suf where a: "t = pre @ suf" "kw_at key stop suf \<noteq> None"
    unfolding match_kw_def search_None_iff by auto
  from a(2)[unfolded kw_at_iff] obtain ws x r where
    "suf = key @ ws @ CHR '':'' # x # r" "ws \<noteq> []" "spaces ws" "\<not> stop x" by blast
  with a(1) show "has_keyword key stop t" unfolding has_keyword_def by blast
next
  assume "has_keyword key stop t"
  then obtain pre ws x r where a: "t = pre @ key @ ws @ CHR '':'' # x # r"
    "ws \<noteq> []" "spaces ws" "\<not> stop x"
    unfolding has_keyword_def by blast
  then have "kw_at key stop (key @ ws @ CHR '':'' # x # r) \<noteq> None"
    unfolding kw_at_iff by blast
  with a(1) have "\<not> (\<forall>pre suf. t = pre @ suf \<longrightarrow> kw_at key stop suf = None)"
    by (auto intro: exI[of _ pre])
  then show "match_kw key stop t \<noteq> None"
    unfolding match_kw_def search_None_iff .
qed

lemma delimited_iff:
  "delimited opn cl r \<noteq> None \<longleftrightarrow>
     (\<exists>body post. r = opn @ body @ cl # post \<and> body \<noteq> [] \<and> cl \<notin> set body)"
  (is "?L \<longleftrightarrow> ?R")
proof
  assume ?L
  then obtain r2 where a: "after_prefix opn r = Some r2"
    "takeWhile (\<lambda>c. c \<noteq> cl) r2 \<noteq> []" "dropWhile (\<lambda>c. c \<noteq> cl) r2 \<noteq> []"
    by (auto simp: delimited_def Let_def split: option.splits if_splits)
  let ?body = "takeWhile (\<lambda>c. c \<noteq> cl) r2" and ?rest = "dropWhile (\<lambda>c. c \<noteq> cl) r2"
  from a(3) hd_dropWhile[of "\<lambda>c. c \<noteq> cl" r2] obtain post where "?rest = cl # post"
    by (cases ?rest) auto
  then have "r2 = ?body @ cl # post" using takeWhile_dropWhile_id[of "\<lambda>c. c \<noteq> cl" r2] by simp
  moreover have "cl \<notin> set ?body" by (auto dest: set_takeWhileD)
  ultimately show ?R using a(1,2) unfolding after_prefix_iff by blast
next
  assume ?R
  then obtain body post where a: "r = opn @ body @ cl # post" "body \<noteq> []" "cl \<notin> set body"
    by blast
  have p: "after_prefix opn r = Some (body @ cl # post)" using a(1) by (simp add: after_prefix_iff)
  have t: "takeWhile (\<lambda>c. c \<noteq> cl) (body @ cl # post) = body"
    using a(3) by (subst takeWhile_append2) auto
  have d: "dropWhile (\<lambda>c. c \<noteq> cl) (body @ cl # post) = cl # post"
    using a(3) by (subst dropWhile_append2) auto
  show ?L using a(2) by (simp add: delimited_def p t d)
qed

lemma delim_at_iff:
  assumes "opn \<noteq> []" "\<not> is_space (hd opn)"
  shows "delim_at key opn cl s \<noteq> None \<longleftrightarrow>
     (\<exists>ws body post. s = key @ ws @ opn @ body @ cl # post
        \<and> ws \<noteq> [] \<and> spaces ws \<and> body \<noteq> [] \<and> cl \<notin> set body)"
  (is "?L \<longleftrightarrow> ?R")
proof
  assume ?L
  then obtain r r1 where a: "after_prefix key s = Some r" "after_spaces1 r = Some r1"
    "delimited opn cl r1 \<noteq> None"
    by (auto simp: delim_at_def split: option.splits)
  from after_spaces1_SomeD[OF a(2)] obtain ws where w: "r = ws @ r1" "ws \<noteq> []" "spaces ws"
    by blast
  from a(3)[unfolded delimited_iff] obtain body post where
    "r1 = opn @ body @ cl # post" "body \<noteq> []" "cl \<notin> set body" by blast
  with w a(1) show ?R unfolding after_prefix_iff by blast
next
  assume ?R
  then obtain ws body post where a: "s = key @ ws @ opn @ body @ cl # post"
    "ws \<noteq> []" "spaces ws" "body \<noteq> []" "cl \<notin> set body" by blast
  have p: "after_prefix key s = Some (ws @ opn @ body @ cl # post)"
    using a(1) by (simp add: after_prefix_iff)
  have "opn @ body @ cl # post = [] \<or> \<not> is_space (hd (opn @ body @ cl # post))"
    using assms by simp
  from after_spaces1_append[OF a(2,3) this]
  have q: "after_spaces1 (ws @ opn @ body @ cl # post) = Some (opn @ body @ cl # post)" .
  have "delimited opn cl (opn @ body @ cl # post) \<noteq> None"
    unfolding delimited_iff using a(4,5) by blast
  then show ?L by (simp add: delim_at_def p q)
qed

lemma match_delim_iff:
  assumes "opn \<noteq> []" "\<not> is_space (hd opn)"
  shows "match_delim key opn cl t \<noteq> None \<longleftrightarrow> has_delimited key opn cl t"
proof
  assume "match_delim key opn cl t \<noteq> None"
  then obtain pre suf where a: "t = pre @ suf" "delim_at key opn cl suf \<noteq> None"
    unfolding match_delim_def search_None_iff by auto
  from a(2)[unfolded delim_at_iff[OF assms]] obtain ws body post where
    "suf = key @ ws @ opn @ body @ cl # post" "ws \<noteq> []" "spaces ws" "body \<noteq> []"
    "cl \<notin> set body" by blast
  with a(1) show "has_delimited key opn cl t" unfolding has_delimited_def by blast
next
  assume "has_delimited key opn cl t"
  then obtain pre ws body post where a: "t = pre @ key @ ws @ opn @ body @ cl # post"
    "ws \<noteq> []" "spaces ws" "body \<noteq> []" "cl \<notin> set body"
    unfolding has_delimited_def by blast
  then have "delim_at key opn cl (key @ ws @ opn @ body @ cl # post) \<noteq> None"
    unfolding delim_at_iff[OF assms] by blast
  with a(1) have "\<not> (\<forall>pre suf. t = pre @ suf \<longrightarrow> delim_at key opn cl suf = None)"
    by (auto intro: exI[of _ pre])
  then show "match_delim key opn cl t \<noteq> None"
    unfolding match_delim_def search_None_iff .
qed

lemma transitions_at_iff:
  "transitions_at s \<noteq> None \<longleftrightarrow>
     (\<exists>ws r. s = '':process/transitions'' @ ws @ CHR ''['' # r
        \<and> ws \<noteq> [] \<and> spaces ws \<and> CHR '']'' \<in> set r)"
  (is "?L \<longleftrightarrow> ?R")
proof
  assume ?L
  then obtain r r1 r2 where a: "after_prefix '':process/transitions'' s = Some r"
    "after_spaces1 r = Some r1" "r1 = CHR ''['' # r2" "CHR '']'' \<in> set r2"
    by (auto simp: transitions_at_def split: option.splits list.splits if_splits)
  from after_spaces1_SomeD[OF a(2)] obtain ws where "r = ws @ r1" "ws \<noteq> []" "spaces ws"
    by blast
  with a show ?R unfolding after_prefix_iff by blast
next
  assume ?R
  then obtain ws r where a: "s = '':process/transitions'' @ ws @ CHR ''['' # r"
    "ws \<noteq> []" "spaces ws" "CHR '']'' \<in> set r" by blast
  have p: "after_prefix '':process/transitions'' s = Some (ws @ CHR ''['' # r)"
    unfolding after_prefix_iff using a(1) by simp
  have q: "after_spaces1 (ws @ CHR ''['' # r) = Some (CHR ''['' # r)"
    using a(2,3) by (simp add: after_spaces1_append not_space_colon)
  show ?L using a(4) by (simp add: transitions_at_def p q)
qed

lemma search_transitions_at_iff:
  "search transitions_at t \<noteq> None \<longleftrightarrow> has_transitions_vector t"
proof
  assume "search transitions_at t \<noteq> None"
  then obtain pre suf where a: "t = pre @ suf" "transitions_at suf \<noteq> None"
    unfolding search_None_iff by auto
  from a(2)[unfolded transitions_at_iff] obtain ws r where
    "suf = '':process/transitions'' @ ws @ CHR ''['' # r" "ws \<noteq> []" "spaces ws"
    "CHR '']'' \<in> set r" by blast
  with a(1) show "has_transitions_vector t" unfolding has_transitions_vector_def by blast
next
  assume "has_transitions_vector t"
  then obtain pre ws r where a: "t = pre @ '':process/transitions'' @ ws @ CHR ''['' # r"
    "ws \<noteq> []" "spaces ws" "CHR '']'' \<in> set r"
    unfolding has_transitions_vector_def by blast
  then have "transitions_at ('':process/transitions'' @ ws @ CHR ''['' # r) \<noteq> None"
    unfolding transitions_at_iff by blast
  with a(1) have "\<not> (\<forall>pre suf. t = pre @ suf \<longrightarrow> transitions_at suf = None)"
    by (auto intro: exI[of _ pre])
  then show "search transitions_at t \<noteq> None"
    unfolding search_None_iff .
qed

lemma bracket_open_at_iff:
  "bracket_open_at key s = Some rest \<longleftrightarrow> (\<exists>ws. s = key @ ws @ CHR ''['' # rest \<and> spaces ws)"
  (is "?L \<longleftrightarrow> ?R")
proof
  assume ?L
  then obtain r where a: "after_prefix key s = Some r"
    "dropWhile is_space r = CHR ''['' # rest"
    by (auto simp: bracket_open_at_def split: option.splits list.splits if_splits)
  have "r = takeWhile is_space r @ CHR ''['' # rest"
    using takeWhile_dropWhile_id[of is_space r] a(2) by simp
  moreover have "spaces (takeWhile is_space r)"
    by (auto simp: spaces_def list_all_iff dest: set_takeWhileD)
  ultimately show ?R using a(1) unfolding after_prefix_iff by metis
next
  assume ?R
  then obtain ws where a: "s = key @ ws @ CHR ''['' # rest" "spaces ws" by blast
  have p: "after_prefix key s = Some (ws @ CHR ''['' # rest)"
    unfolding after_prefix_iff using a(1) by simp
  have "dropWhile is_space (ws @ CHR ''['' # rest) = CHR ''['' # rest"
    using a(2) by (simp add: dropWhile_spaces not_space_colon)
  then show ?L by (simp add: bracket_open_at_def p)
qed

lemma depth_Cons: "depth (c # s) = depth [c] + depth s"
  by (simp add: depth_def)

lemma bracket_scan_iff:
  "1 \<le> n \<Longrightarrow>
   bracket_scan n acc s = Some r \<longleftrightarrow>
     (\<exists>body post. s = body @ CHR '']'' # post \<and> r = acc @ body
        \<and> int n + depth body = 1
        \<and> (\<forall>j \<le> length body. 1 \<le> int n + depth (take j body)))"
proof (induction s arbitrary: n acc)
  case Nil
  show ?case by simp
next
  case (Cons c cs)
  define n' where "n' = (if c = CHR ''['' then n + 1 else if c = CHR '']'' then n - 1 else n)"
  have n'_int: "int n' = int n + depth [c]"
    using Cons.prems by (auto simp: n'_def depth_def)
  have scan: "bracket_scan n acc (c # cs)
              = (if n' = 0 then Some acc else bracket_scan n' (acc @ [c]) cs)"
    by (simp add: n'_def Let_def)
  let ?R = "\<exists>body post. c # cs = body @ CHR '']'' # post \<and> r = acc @ body
        \<and> int n + depth body = 1
        \<and> (\<forall>j \<le> length body. 1 \<le> int n + depth (take j body))"
  show ?case
  proof (cases "n' = 0")
    case True
    then have c: "c = CHR '']''" "n = 1"
      using Cons.prems by (auto simp: n'_def split: if_splits)
    show ?thesis
    proof
      assume "bracket_scan n acc (c # cs) = Some r"
      with scan True have "r = acc" by simp
      with c have "c # cs = [] @ CHR '']'' # cs \<and> r = acc @ []
        \<and> int n + depth [] = 1
        \<and> (\<forall>j \<le> length ([]::string). 1 \<le> int n + depth (take j []))"
        by (simp add: depth_def)
      then show ?R by blast
    next
      assume ?R
      then obtain body post where b: "c # cs = body @ CHR '']'' # post" "r = acc @ body"
        "\<forall>j \<le> length body. 1 \<le> int n + depth (take j body)"
        by blast
      have "body = []"
      proof (rule ccontr)
        assume "body \<noteq> []"
        then obtain b bs where bb: "body = b # bs" by (cases body) auto
        with b(1) have "b = c" by simp
        from b(3) bb have "1 \<le> int n + depth (take 1 body)" by auto
        with bb \<open>b = c\<close> c show False by (simp add: depth_def)
      qed
      with b scan True show "bracket_scan n acc (c # cs) = Some r" by simp
    qed
  next
    case False
    then have n'1: "1 \<le> n'" by simp
    note IH = Cons.IH[OF n'1, of "acc @ [c]"]
    show ?thesis
    proof
      assume "bracket_scan n acc (c # cs) = Some r"
      with scan False have "bracket_scan n' (acc @ [c]) cs = Some r" by simp
      with IH obtain body' post where b: "cs = body' @ CHR '']'' # post"
        "r = (acc @ [c]) @ body'" "int n' + depth body' = 1"
        "\<forall>j \<le> length body'. 1 \<le> int n' + depth (take j body')"
        by blast
      have all: "\<forall>j \<le> length (c # body'). 1 \<le> int n + depth (take j (c # body'))"
      proof (intro allI impI)
        fix j assume j: "j \<le> length (c # body')"
        show "1 \<le> int n + depth (take j (c # body'))"
        proof (cases j)
          case 0
          then show ?thesis using Cons.prems by (simp add: depth_def)
        next
          case (Suc k)
          with j have "k \<le> length body'" by simp
          with b(4) have "1 \<le> int n' + depth (take k body')" by blast
          then show ?thesis using Suc n'_int by (simp add: depth_Cons[of c "take k body'"])
        qed
      qed
      have "c # cs = (c # body') @ CHR '']'' # post" using b(1) by simp
      moreover have "r = acc @ (c # body')" using b(2) by simp
      moreover have "int n + depth (c # body') = 1"
        using b(3) n'_int by (simp add: depth_Cons[of c body'])
      ultimately show ?R using all by blast
    next
      assume ?R
      then obtain body post where b: "c # cs = body @ CHR '']'' # post" "r = acc @ body"
        "int n + depth body = 1"
        "\<forall>j \<le> length body. 1 \<le> int n + depth (take j body)"
        by blast
      have "body \<noteq> []"
      proof
        assume "body = []"
        with b(1,3) have "c = CHR '']''" "n = 1" by (simp_all add: depth_def)
        then have "n' = 0" by (simp add: n'_def)
        with False show False by simp
      qed
      then obtain body' where bb: "body = c # body'" using b(1) by (cases body) auto
      have all: "\<forall>j \<le> length body'. 1 \<le> int n' + depth (take j body')"
      proof (intro allI impI)
        fix j assume "j \<le> length body'"
        then have "Suc j \<le> length body" using bb by simp
        with b(4) have "1 \<le> int n + depth (take (Suc j) body)" by blast
        then show "1 \<le> int n' + depth (take j body')"
          using bb n'_int by (simp add: depth_Cons[of c "take j body'"])
      qed
      have "cs = body' @ CHR '']'' # post" using b(1) bb by simp
      moreover have "r = (acc @ [c]) @ body'" using b(2) bb by simp
      moreover have "int n' + depth body' = 1"
        using b(3) bb n'_int by (simp add: depth_Cons[of c body'])
      ultimately have "bracket_scan n' (acc @ [c]) cs = Some r"
        using IH all by blast
      with scan False show "bracket_scan n acc (c # cs) = Some r" by simp
    qed
  qed
qed

lemma bracket_scan_closed: "bracket_scan 1 [] rest = Some body \<longleftrightarrow> closed_bracket rest body"
proof -
  have "bracket_scan 1 [] rest = Some body \<longleftrightarrow>
     (\<exists>b post. rest = b @ CHR '']'' # post \<and> body = [] @ b
        \<and> int 1 + depth b = 1
        \<and> (\<forall>j \<le> length b. 1 \<le> int 1 + depth (take j b)))"
    by (rule bracket_scan_iff) simp
  also have "\<dots> \<longleftrightarrow> closed_bracket rest body"
    unfolding closed_bracket_def by auto
  finally show ?thesis .
qed

lemma search_bracket_first:
  "search (bracket_open_at key) t = Some rest \<longleftrightarrow> first_bracket key t rest"
  (is "?L \<longleftrightarrow> ?R")
proof
  assume ?L
  then obtain pre suf where a: "t = pre @ suf" "bracket_open_at key suf = Some rest"
    and least: "\<forall>pre' suf'. t = pre' @ suf' \<and> length pre' < length pre
                  \<longrightarrow> bracket_open_at key suf' = None"
    unfolding search_Some_iff by blast
  from a(2)[unfolded bracket_open_at_iff] obtain ws where
    w: "suf = key @ ws @ CHR ''['' # rest" "spaces ws" by blast
  have "\<forall>pre' ws' rest'. t = pre' @ key @ ws' @ CHR ''['' # rest' \<and> spaces ws'
          \<longrightarrow> length pre \<le> length pre'"
  proof (intro allI impI)
    fix pre' ws' rest'
    assume b: "t = pre' @ key @ ws' @ CHR ''['' # rest' \<and> spaces ws'"
    then have "bracket_open_at key (key @ ws' @ CHR ''['' # rest') = Some rest'"
      unfolding bracket_open_at_iff by blast
    with least b show "length pre \<le> length pre'"
      by (metis linorder_not_less option.distinct(1))
  qed
  with a(1) w show ?R unfolding first_bracket_def by blast
next
  assume ?R
  then obtain pre ws where a: "t = pre @ key @ ws @ CHR ''['' # rest" "spaces ws"
    and least: "\<forall>pre' ws' rest'. t = pre' @ key @ ws' @ CHR ''['' # rest' \<and> spaces ws'
                  \<longrightarrow> length pre \<le> length pre'"
    unfolding first_bracket_def by blast
  have m: "bracket_open_at key (key @ ws @ CHR ''['' # rest) = Some rest"
    unfolding bracket_open_at_iff using a(2) by blast
  have "\<forall>pre' suf'. t = pre' @ suf' \<and> length pre' < length pre
          \<longrightarrow> bracket_open_at key suf' = None"
  proof (intro allI impI)
    fix pre' suf' assume b: "t = pre' @ suf' \<and> length pre' < length pre"
    show "bracket_open_at key suf' = None"
    proof (cases "bracket_open_at key suf'")
      case None
      then show ?thesis .
    next
      case (Some rest')
      then obtain ws' where "suf' = key @ ws' @ CHR ''['' # rest'" "spaces ws'"
        unfolding bracket_open_at_iff by blast
      with b least have "length pre \<le> length pre'" by blast
      with b show ?thesis by simp
    qed
  qed
  with a(1) m show ?L unfolding search_Some_iff by blast
qed

lemma extractBracketedContent_iff:
  "extractBracketedContent t key = Some body \<longleftrightarrow>
     (\<exists>rest. first_bracket key t rest \<and> closed_bracket rest body)"
proof
  assume "extractBracketedContent t key = Some body"
  then obtain rest where a: "search (bracket_open_at key) t = Some rest"
    "bracket_scan 1 [] rest = Some body"
    by (auto simp: extractBracketedContent_def split: option.splits)
  from a(1) have "first_bracket key t rest" by (simp only: search_bracket_first)
  moreover from a(2) have "closed_bracket rest body" by (simp only: bracket_scan_closed)
  ultimately show "\<exists>rest. first_bracket key t rest \<and> closed_bracket rest body" by blast
next
  assume "\<exists>rest. first_bracket key t rest \<and> closed_bracket rest body"
  then obtain rest where a: "first_bracket key t rest" "closed_bracket rest body" by blast
  from a(1) have "search (bracket_open_at key) t = Some rest" by (simp only: search_bracket_first)
  moreover from a(2) have "bracket_scan 1 [] rest = Some body"
    by (simp only: bracket_scan_closed)
  ultimately show "extractBracketedContent t key = Some body"
    by (simp add: extractBracketedContent_def)
qed


lemma stop_space_eq: "stop_space = is_space"
  by (rule ext) (simp add: stop_space_def)

subsection \<open>What the parser rejects\<close>

text \<open>
  Claim C4, as stated, fails: the parser has no token stream and checks no delimiters.
  A document whose outer map is never closed (two \<open>{\<close>, one \<open>}\<close>), one whose vector
  closes before the map inside it, and one whose transition map has three children are
  all parsed without an error.
\<close>

theorem parseEdn_accepts_unbalanced:
  "count_list example_unclosed (CHR ''{'') = 2 \<and> count_list example_unclosed (CHR ''}'') = 1
   \<and> parseEdn example_unclosed =
       Inr \<lparr> process_id = None, process_states = None, process_transitions = None,
             format = Some ''v3'',
             transitions = Some [\<lparr> v3_name = ''t'', v3_actor = None, v3_actions = None,
                                    v3_to = Some ''a'', v3_from = None \<rparr>],
             notifications = Some [] \<rparr>
   \<and> parseEdn example_mismatched =
       Inr \<lparr> process_id = None, process_states = None, process_transitions = None,
             format = Some ''v3'', transitions = Some [], notifications = Some [] \<rparr>
   \<and> parseEdn example_odd_map =
       Inr \<lparr> process_id = None, process_states = None, process_transitions = None,
             format = Some ''v3'',
             transitions = Some [\<lparr> v3_name = ''t'', v3_actor = None, v3_actions = None,
                                    v3_to = None, v3_from = None \<rparr>],
             notifications = Some [] \<rparr>"
  by code_simp

text \<open>
  Claim C4, amended. \<open>parseEdn\<close> reads the raw text with regular expressions and fails,
  with a message and no position, exactly in the following cases, where \<open>c\<close> is the text
  without its comments. When \<open>c\<close> contains \<open>:format :v3\<close>: at the first place of \<open>c\<close> where
  \<open>:transitions\<close>, optional whitespace and \<open>[\<close> occur, no \<open>]\<close> closes that \<open>[\<close> (counting
  \<open>[\<close> and \<open>]\<close> only) or the \<open>]\<close> follows at once; or there is no such place. A later
  \<open>:transitions [\<close> is not read. Otherwise, when \<open>c\<close> contains \<open>:process/id\<close> and
  \<open>:process/states\<close>: nowhere in \<open>c\<close> is \<open>:process/id\<close> followed by whitespace, a colon and
  a character that is not whitespace; or, that being found, nowhere is \<open>:process/states\<close>
  followed by whitespace, \<open>#{\<close>, one or more characters other than \<open>}\<close>, and \<open>}\<close>; or,
  both being found, nowhere is \<open>:process/transitions\<close> followed by whitespace and a \<open>[\<close>
  with a \<open>]\<close> somewhere after it. Otherwise: always (unrecognized format). Nothing else
  makes \<open>parseEdn\<close> fail.
\<close>

theorem parseEdn_fails_iff:
  "(parseEdn s = Inl e) =
     (if str_includes '':format :v3'' (strip_comments False s) then
        e = MissingTransitions
        \<and> \<not> (\<exists>rest body. first_bracket '':transitions'' (strip_comments False s) rest
                \<and> closed_bracket rest body \<and> body \<noteq> [])
      else if str_includes '':process/id'' (strip_comments False s)
              \<and> str_includes '':process/states'' (strip_comments False s) then
        (e = MissingProcessId
           \<and> \<not> has_keyword '':process/id'' is_space (strip_comments False s))
        \<or> (e = MissingProcessStates
           \<and> has_keyword '':process/id'' is_space (strip_comments False s)
           \<and> \<not> has_delimited '':process/states'' ''#{'' (CHR ''}'') (strip_comments False s))
        \<or> (e = MissingProcessTransitions
           \<and> has_keyword '':process/id'' is_space (strip_comments False s)
           \<and> has_delimited '':process/states'' ''#{'' (CHR ''}'') (strip_comments False s)
           \<and> \<not> has_transitions_vector (strip_comments False s))
      else e = UnrecognizedFormat)"
proof -
  define c where "c = strip_comments False s"
  have kw: "(match_kw '':process/id'' stop_space c = None)
            = (\<not> has_keyword '':process/id'' is_space c)"
    using match_kw_iff[of "'':process/id''" is_space c]
    by (auto simp: stop_space_eq)
  have dl: "(match_delim '':process/states'' ''#{'' (CHR ''}'') c = None)
            = (\<not> has_delimited '':process/states'' ''#{'' (CHR ''}'') c)"
    using match_delim_iff[of "''#{''" "'':process/states''" "CHR ''}''" c]
    by (auto simp: not_space_colon)
  have tv: "(search transitions_at c = None) = (\<not> has_transitions_vector c)"
    using search_transitions_at_iff[of c] by auto
  have ex: "(extractBracketedContent c '':transitions'' = None
             \<or> extractBracketedContent c '':transitions'' = Some [])
            = (\<not> (\<exists>rest body. first_bracket '':transitions'' c rest
                      \<and> closed_bracket rest body \<and> body \<noteq> []))"
  proof (cases "extractBracketedContent c '':transitions''")
    case None
    then have "\<And>body. \<not> (\<exists>rest. first_bracket '':transitions'' c rest \<and> closed_bracket rest body)"
      using extractBracketedContent_iff[of c "'':transitions''"] by simp
    with None show ?thesis by blast
  next
    case (Some b)
    have b: "(\<exists>rest. first_bracket '':transitions'' c rest \<and> closed_bracket rest body)
                    = (body = b)" for body
    proof -
      have "(\<exists>rest. first_bracket '':transitions'' c rest \<and> closed_bracket rest body)
            = (extractBracketedContent c '':transitions'' = Some body)"
        by (simp only: extractBracketedContent_iff)
      also have "\<dots> = (body = b)" using Some by auto
      finally show ?thesis .
    qed
    have "(\<exists>rest body. first_bracket '':transitions'' c rest
                      \<and> closed_bracket rest body \<and> body \<noteq> []) = (b \<noteq> [])"
    proof -
      have "(\<exists>rest body. first_bracket '':transitions'' c rest
                      \<and> closed_bracket rest body \<and> body \<noteq> [])
            = (\<exists>body. (\<exists>rest. first_bracket '':transitions'' c rest \<and> closed_bracket rest body)
                      \<and> body \<noteq> [])"
        by blast
      also have "\<dots> = (\<exists>body. body = b \<and> body \<noteq> [])" by (simp only: b)
      also have "\<dots> = (b \<noteq> [])" by simp
      finally show ?thesis .
    qed
    with Some show ?thesis by simp
  qed
  have v3: "(parseV3Format c = Inl e)
            = (e = MissingTransitions
               \<and> (extractBracketedContent c '':transitions'' = None
                    \<or> extractBracketedContent c '':transitions'' = Some []))"
    by (auto simp: parseV3Format_def split: option.splits)
  have v2: "(parseV2Format c = Inl e)
            = ((e = MissingProcessId \<and> match_kw '':process/id'' stop_space c = None)
               \<or> (e = MissingProcessStates \<and> match_kw '':process/id'' stop_space c \<noteq> None
                   \<and> match_delim '':process/states'' ''#{'' (CHR ''}'') c = None)
               \<or> (e = MissingProcessTransitions
                   \<and> match_kw '':process/id'' stop_space c \<noteq> None
                   \<and> match_delim '':process/states'' ''#{'' (CHR ''}'') c \<noteq> None
                   \<and> search transitions_at c = None))"
    by (auto simp: parseV2Format_def split: option.splits)
  have pe: "(parseEdn s = Inl e) =
     (if str_includes '':format :v3'' c then parseV3Format c = Inl e
      else if str_includes '':process/id'' c \<and> str_includes '':process/states'' c
      then parseV2Format c = Inl e else e = UnrecognizedFormat)"
    by (auto simp: parseEdn_def Let_def c_def)
  have kw': "(match_kw '':process/id'' stop_space c \<noteq> None)
             = has_keyword '':process/id'' is_space c"
    using kw by simp
  have dl': "(match_delim '':process/states'' ''#{'' (CHR ''}'') c \<noteq> None)
             = has_delimited '':process/states'' ''#{'' (CHR ''}'') c"
    using dl by simp
  have main: "(parseEdn s = Inl e) =
     (if str_includes '':format :v3'' c then
        e = MissingTransitions
        \<and> \<not> (\<exists>rest body. first_bracket '':transitions'' c rest
                \<and> closed_bracket rest body \<and> body \<noteq> [])
      else if str_includes '':process/id'' c \<and> str_includes '':process/states'' c then
        (e = MissingProcessId \<and> \<not> has_keyword '':process/id'' is_space c)
        \<or> (e = MissingProcessStates
           \<and> has_keyword '':process/id'' is_space c
           \<and> \<not> has_delimited '':process/states'' ''#{'' (CHR ''}'') c)
        \<or> (e = MissingProcessTransitions
           \<and> has_keyword '':process/id'' is_space c
           \<and> has_delimited '':process/states'' ''#{'' (CHR ''}'') c
           \<and> \<not> has_transitions_vector c)
      else e = UnrecognizedFormat)"
    unfolding pe v3 v2 ex kw dl tv not_not ..
  from main[unfolded c_def] show ?thesis .
qed

text \<open>
  A modern document whose first \<open>:transitions\<close> vector is empty and whose second is not, a
  modern document without \<open>:transitions\<close>, and a legacy document whose states are not a
  set, all fail; the document whose outer map is never closed does not.
\<close>

theorem parseEdn_fails_iff_witness:
  "parseEdn example_two_vectors = Inl MissingTransitions
   \<and> \<not> (\<exists>rest body. first_bracket '':transitions'' (strip_comments False example_two_vectors) rest
            \<and> closed_bracket rest body \<and> body \<noteq> [])
   \<and> parseEdn example_no_sections = Inl MissingTransitions
   \<and> \<not> (\<exists>rest body. first_bracket '':transitions'' (strip_comments False example_no_sections) rest
            \<and> closed_bracket rest body \<and> body \<noteq> [])
   \<and> parseEdn example_legacy_no_states = Inl MissingProcessStates
   \<and> \<not> has_delimited '':process/states'' ''#{'' (CHR ''}'')
          (strip_comments False example_legacy_no_states)
   \<and> (\<exists>rest body. first_bracket '':transitions'' (strip_comments False example_unclosed) rest
          \<and> closed_bracket rest body \<and> body \<noteq> [])"
proof -
  have a: "parseEdn example_two_vectors = Inl MissingTransitions"
    and a': "str_includes '':format :v3'' (strip_comments False example_two_vectors)"
    by code_simp+
  have b: "parseEdn example_no_sections = Inl MissingTransitions"
    and b': "str_includes '':format :v3'' (strip_comments False example_no_sections)"
    by code_simp+
  have c: "parseEdn example_legacy_no_states = Inl MissingProcessStates"
    and c': "\<not> str_includes '':format :v3'' (strip_comments False example_legacy_no_states)"
    by code_simp+
  have d: "parseEdn example_unclosed \<noteq> Inl MissingTransitions"
    and d': "str_includes '':format :v3'' (strip_comments False example_unclosed)"
    by code_simp+
  from a a' parseEdn_fails_iff[of example_two_vectors MissingTransitions]
  have 1: "\<not> (\<exists>rest body. first_bracket '':transitions'' (strip_comments False example_two_vectors) rest
            \<and> closed_bracket rest body \<and> body \<noteq> [])"
    by simp
  from b b' parseEdn_fails_iff[of example_no_sections MissingTransitions]
  have 2: "\<not> (\<exists>rest body. first_bracket '':transitions'' (strip_comments False example_no_sections) rest
            \<and> closed_bracket rest body \<and> body \<noteq> [])"
    by simp
  from c c' parseEdn_fails_iff[of example_legacy_no_states MissingProcessStates]
  have 3: "\<not> has_delimited '':process/states'' ''#{'' (CHR ''}'')
          (strip_comments False example_legacy_no_states)"
    by (simp split: if_splits)
  from d d' parseEdn_fails_iff[of example_unclosed MissingTransitions]
  have 4: "\<exists>rest body. first_bracket '':transitions'' (strip_comments False example_unclosed) rest
          \<and> closed_bracket rest body \<and> body \<noteq> []"
    by simp
  from a 1 b 2 c 3 4 show ?thesis by blast
qed

subsection \<open>Transitions with a missing field\<close>



subsection \<open>The edges of a graph, in the order of the transitions\<close>



lemma edges_of_legacy_process:
  assumes "format p \<noteq> Some ''v3''" "process_transitions p = Some trs"
  shows "edges (generateGraphData p) = concat (map edgesV2_of trs)"
  using assms by (simp add: generateGraphData_def generateV2GraphData_def Let_def)

lemma edgesV2_summary:
  "map (\<lambda>e. (edge_id e, source e, target e, data_transitionId e, data_actor e,
              data_actions e, data_notifications e)) (edgesV2_of t)
   = map (\<lambda>(i, s). (transition_id t @ ''-'' @ String_of_nat i, s, transition_to t,
                     transition_id t, transition_actor t,
                     (case transition_actions t of None \<Rightarrow> [] | Some l \<Rightarrow> l),
                     (case transition_notifications t of None \<Rightarrow> [] | Some l \<Rightarrow> l)))
       (enumerate 0 (case transition_from t of Single s \<Rightarrow> [s] | Many ss \<Rightarrow> ss))"
  by (simp add: edgesV2_of_def fromStates_def comp_def case_prod_unfold)







lemma strip_comments_in_comment:
  "\<forall>c \<in> set l. \<not> is_line_terminator c \<Longrightarrow> strip_comments True l = []"
  by (induction l) auto

lemma strip_comments_line:
  "\<forall>c \<in> set l. \<not> is_line_terminator c \<Longrightarrow>
   strip_comments False l = takeWhile (\<lambda>c. c \<noteq> CHR '';'') l"
  by (induction l) (auto simp: strip_comments_in_comment)

lemma strip_comments_break:
  "is_line_terminator c \<Longrightarrow>
   strip_comments b (l @ c # rest) = strip_comments b l @ c # strip_comments False rest"
proof (induction l arbitrary: b)
  case Nil
  then show ?case by simp
next
  case (Cons x l)
  show ?case
  proof (cases "is_line_terminator x")
    case True
    then show ?thesis using Cons.IH[OF Cons.prems, of False] by simp
  next
    case False
    then show ?thesis
      using Cons.IH[OF Cons.prems, of True] Cons.IH[OF Cons.prems, of False] by simp
  qed
qed







subsection \<open>Edges of a legacy transition\<close>



lemma digit_char_inj: "a < 10 \<Longrightarrow> b < 10 \<Longrightarrow> digit_char a = digit_char b \<Longrightarrow> a = b"
  by (simp add: digit_char_def char_of_eq_iff take_bit_nat_eq_self)

lemma String_of_nat_nonempty: "String_of_nat n \<noteq> []"
  by (subst String_of_nat.simps) simp

lemma String_of_nat_inj: "String_of_nat m = String_of_nat n \<Longrightarrow> m = n"
proof (induction m arbitrary: n rule: String_of_nat.induct)
  case (1 m)
  show ?case
  proof (cases "m < 10")
    case True
    show ?thesis
    proof (cases "n < 10")
      case n: True
      from "1.prems" True n have "digit_char m = digit_char n"
        by (simp add: String_of_nat.simps[of m] String_of_nat.simps[of n])
      with True n show ?thesis by (simp add: digit_char_inj)
    next
      case False
      from "1.prems" True False show ?thesis
        using String_of_nat_nonempty[of "n div 10"]
        by (simp add: String_of_nat.simps[of m] String_of_nat.simps[of n])
    qed
  next
    case False
    show ?thesis
    proof (cases "n < 10")
      case True
      from "1.prems" True False show ?thesis
        using String_of_nat_nonempty[of "m div 10"]
        by (simp add: String_of_nat.simps[of m] String_of_nat.simps[of n])
    next
      case n: False
      from "1.prems" False n
      have eq: "String_of_nat (m div 10) = String_of_nat (n div 10)"
        and d: "digit_char (m mod 10) = digit_char (n mod 10)"
        by (simp_all add: String_of_nat.simps[of m] String_of_nat.simps[of n])
      from "1.IH"[OF False eq] have "m div 10 = n div 10" .
      moreover from d have "m mod 10 = n mod 10" by (intro digit_char_inj) simp_all
      ultimately show ?thesis by (metis div_mult_mod_eq)
    qed
  qed
qed


text \<open>
  Claim C5, as stated, fails: the parser keeps a state that is written twice in the set of
  from-states, and the two edges of the transition then have the same source.
\<close>

theorem duplicate_from_states_share_source:
  "(case parseEdn example_duplicate_from of
      Inl e \<Rightarrow> False
    | Inr p \<Rightarrow>
        map transition_from (the (process_transitions p)) = [Many [''a'', ''a'']]
        \<and> map (\<lambda>e. (edge_id e, source e, target e)) (edges (generateGraphData p))
            = [(''t-0'', ''a'', ''b''), (''t-1'', ''a'', ''b'')])"
  by code_simp

text \<open>
  Claim C5, amended. A legacy transition whose \<open>from\<close> is a single state gets one edge, and
  one whose \<open>from\<close> is a list of \<open>n\<close> entries gets exactly \<open>n\<close> edges, one for each entry in
  order (none when the list is empty). The edge of the entry at index \<open>i\<close> has that entry
  as its source, the id of the transition followed by \<open>-i\<close> as its id, and the target,
  transition id, actor, actions and notifications of the transition. The edge ids of one
  transition are distinct; its sources are distinct exactly when the entries are. The
  edges of the graph of a legacy process are those of its transitions, in order.
\<close>

theorem multi_from_fan_out:
  "map (\<lambda>e. (edge_id e, source e, target e, data_transitionId e, data_actor e,
              data_actions e, data_notifications e)) (edgesV2_of t)
   = map (\<lambda>(i, s). (transition_id t @ ''-'' @ String_of_nat i, s, transition_to t,
                     transition_id t, transition_actor t,
                     (case transition_actions t of None \<Rightarrow> [] | Some l \<Rightarrow> l),
                     (case transition_notifications t of None \<Rightarrow> [] | Some l \<Rightarrow> l)))
       (enumerate 0 (case transition_from t of Single s \<Rightarrow> [s] | Many ss \<Rightarrow> ss))
   \<and> length (edgesV2_of t) = (case transition_from t of Single s \<Rightarrow> 1 | Many ss \<Rightarrow> length ss)
   \<and> distinct (map edge_id (edgesV2_of t))
   \<and> distinct (map source (edgesV2_of t))
       = distinct (case transition_from t of Single s \<Rightarrow> [s] | Many ss \<Rightarrow> ss)
   \<and> (format p \<noteq> Some ''v3'' \<and> process_transitions p = Some trs \<longrightarrow>
        edges (generateGraphData p) = concat (map edgesV2_of trs))"
proof -
  let ?fs = "case transition_from t of Single s \<Rightarrow> [s] | Many ss \<Rightarrow> ss"
  let ?g = "\<lambda>i. transition_id t @ ''-'' @ String_of_nat i"
  have fs: "fromStates t = ?fs" by (simp add: fromStates_def)
  have src: "map source (edgesV2_of t) = ?fs"
    unfolding fs[symmetric]
    by (simp add: edgesV2_of_def comp_def case_prod_unfold map_snd_enumerate)
  have e: "map fst (enumerate 0 (fromStates t)) = [0..<length (fromStates t)]"
    by (simp add: map_fst_enumerate)
  have "map edge_id (edgesV2_of t) = map (?g \<circ> fst) (enumerate 0 (fromStates t))"
    by (simp add: edgesV2_of_def comp_def case_prod_unfold)
  also have "\<dots> = map ?g (map fst (enumerate 0 (fromStates t)))"
    by (simp only: map_map)
  also have "\<dots> = map ?g [0..<length (fromStates t)]"
    by (simp only: e)
  finally have ids: "map edge_id (edgesV2_of t) = map ?g [0..<length (fromStates t)]" .
  have "inj_on ?g (set [0..<length (fromStates t)])"
    by (auto simp: inj_on_def dest: String_of_nat_inj)
  then have dis: "distinct (map edge_id (edgesV2_of t))"
    unfolding ids by (simp add: distinct_map)
  have len: "length (edgesV2_of t)
             = (case transition_from t of Single s \<Rightarrow> 1 | Many ss \<Rightarrow> length ss)"
    by (simp add: edgesV2_of_def fromStates_def split: from_field.splits)
  have graph: "format p \<noteq> Some ''v3'' \<and> process_transitions p = Some trs \<longrightarrow>
        edges (generateGraphData p) = concat (map edgesV2_of trs)"
    using edges_of_legacy_process by blast
  from edgesV2_summary[of t] len dis src graph show ?thesis by simp
qed

text \<open>
A transition with three from-states, and the graph of a process with that transition.
\<close>

theorem multi_from_fan_out_witness:
  "map (\<lambda>e. (edge_id e, source e, target e)) (edgesV2_of example_three_from)
     = [(''transition/cancel-0'', ''pending'', ''cancelled''),
        (''transition/cancel-1'', ''accepted'', ''cancelled''),
        (''transition/cancel-2'', ''paid'', ''cancelled'')]
   \<and> length (edgesV2_of example_three_from) = 3
   \<and> distinct (map source (edgesV2_of example_three_from))
   \<and> map (\<lambda>e. (edge_id e, source e, target e))
        (edges (generateGraphData example_three_from_process))
     = [(''transition/cancel-0'', ''pending'', ''cancelled''),
        (''transition/cancel-1'', ''accepted'', ''cancelled''),
        (''transition/cancel-2'', ''paid'', ''cancelled'')]"
proof -
  have i: "map (\<lambda>(i, s). (transition_id example_three_from @ ''-'' @ String_of_nat i, s,
                           transition_to example_three_from))
             (enumerate 0 [''pending'', ''accepted'', ''paid''])
           = [(''transition/cancel-0'', ''pending'', ''cancelled''),
              (''transition/cancel-1'', ''accepted'', ''cancelled''),
              (''transition/cancel-2'', ''paid'', ''cancelled'')]"
    by code_simp
  have f: "transition_from example_three_from = Many [''pending'', ''accepted'', ''paid'']"
    by (simp add: example_three_from_def)
  have g: "format example_three_from_process \<noteq> Some ''v3''
           \<and> process_transitions example_three_from_process = Some [example_three_from]"
    by (simp add: example_three_from_process_def)
  note w = multi_from_fan_out[where t = example_three_from and p = example_three_from_process
             and trs = "[example_three_from]"]
  from arg_cong[OF w[THEN conjunct1], of "map (\<lambda>(a, b, c, d). (a, b, c))"]
  have "map (\<lambda>e. (edge_id e, source e, target e)) (edgesV2_of example_three_from)
        = map (\<lambda>(i, s). (transition_id example_three_from @ ''-'' @ String_of_nat i, s,
                           transition_to example_three_from))
             (enumerate 0 [''pending'', ''accepted'', ''paid''])"
    by (simp add: comp_def case_prod_unfold f)
  with i have 1: "map (\<lambda>e. (edge_id e, source e, target e)) (edgesV2_of example_three_from)
     = [(''transition/cancel-0'', ''pending'', ''cancelled''),
        (''transition/cancel-1'', ''accepted'', ''cancelled''),
        (''transition/cancel-2'', ''paid'', ''cancelled'')]"
    by simp
  from w f have 2: "length (edgesV2_of example_three_from) = 3" by simp
  from w f have 3: "distinct (map source (edgesV2_of example_three_from))" by simp
  from w[THEN conjunct2, THEN conjunct2, THEN conjunct2, THEN conjunct2, THEN mp, OF g]
  have "edges (generateGraphData example_three_from_process) = edgesV2_of example_three_from"
    by simp
  with 1 have 4: "map (\<lambda>e. (edge_id e, source e, target e))
        (edges (generateGraphData example_three_from_process))
     = [(''transition/cancel-0'', ''pending'', ''cancelled''),
        (''transition/cancel-1'', ''accepted'', ''cancelled''),
        (''transition/cancel-2'', ''paid'', ''cancelled'')]"
    by simp
  from 1 2 3 4 show ?thesis by blast
qed

subsection \<open>Nodes of the modern format\<close>

lemma set_set_add: "set (set_add x xs) = insert x (set xs)"
  by (auto simp: set_add_def)

lemma set_add_if_truthy:
  "set (add_if_truthy v xs) = set xs \<union> {s. v = Some s \<and> s \<noteq> []}"
  by (auto simp: add_if_truthy_def set_set_add split: option.splits)

lemma set_foldl_states:
  "set (foldl (\<lambda>stateSet t. add_if_truthy (v3_to t) (add_if_truthy (v3_from t) stateSet))
          acc ts)
   = set acc \<union> {s. \<exists>t \<in> set ts. (v3_from t = Some s \<or> v3_to t = Some s) \<and> s \<noteq> []}"
  by (induction ts arbitrary: acc) (auto simp: set_add_if_truthy)

lemma set_statesV3:
  "set (statesV3 ts)
   = (if \<exists>t \<in> set ts. \<not> truthy (v3_from t) then {''initial''} else {})
     \<union> {s. \<exists>t \<in> set ts. (v3_from t = Some s \<or> v3_to t = Some s) \<and> s \<noteq> []}"
proof -
  have "(filter (\<lambda>t. \<not> truthy (v3_from t)) ts \<noteq> []) = (\<exists>t \<in> set ts. \<not> truthy (v3_from t))"
    by (simp add: filter_empty_conv)
  then show ?thesis
    unfolding statesV3_def set_foldl_states by (simp add: set_set_add)
qed

lemma edgesV3_of_endpoints:
  assumes "e \<in> set (edgesV3_of (i, t))"
  shows "v3_to t = Some (target e) \<and> target e \<noteq> []
         \<and> source e = or_else (v3_from t) ''initial''
         \<and> data_from e = source e"
  using assms by (auto simp: edgesV3_of_def Let_def split: option.splits if_splits)

lemma node_ids_V3:
  "map node_id (nodes (generateV3GraphData p))
   = statesV3 (case transitions p of None \<Rightarrow> [] | Some l \<Rightarrow> l)"
  by (simp add: generateV3GraphData_def Let_def make_node_def comp_def)

lemma node_ids_V2:
  "map node_id (nodes (generateV2GraphData p))
   = (case process_states p of None \<Rightarrow> [] | Some l \<Rightarrow> l)"
  by (simp add: generateV2GraphData_def Let_def make_node_def comp_def)

lemma edges_V3_cases:
  assumes "e \<in> set (edges (generateV3GraphData p))"
  shows "\<exists>i t. t \<in> set (case transitions p of None \<Rightarrow> [] | Some l \<Rightarrow> l)
               \<and> e \<in> set (edgesV3_of (i, t))"
proof -
  define ts where "ts = (case transitions p of None \<Rightarrow> [] | Some l \<Rightarrow> l)"
  have g: "edges (generateV3GraphData p) = concat (map edgesV3_of (enumerate 0 ts))"
    by (simp add: generateV3GraphData_def Let_def ts_def)
  from assms[unfolded g] obtain it where it: "it \<in> set (enumerate 0 ts)"
    and e: "e \<in> set (edgesV3_of it)"
    by auto
  obtain i t where p: "it = (i, t)" by (cases it)
  with it have "t \<in> set ts" by (auto simp: in_set_enumerate_eq)
  with e p show ?thesis unfolding ts_def by blast
qed

lemma edgesV2_of_endpoints:
  assumes "e \<in> set (edgesV2_of t)"
  shows "source e \<in> set (fromStates t) \<and> target e = transition_to t"
  using assms by (auto simp: edgesV2_of_def in_set_enumerate_eq)

lemma source_is_node_V3:
  assumes "t \<in> set ts" and "e \<in> set (edgesV3_of (i, t))"
  shows "source e \<in> set (statesV3 ts) \<and> target e \<in> set (statesV3 ts)"
proof -
  from edgesV3_of_endpoints[OF assms(2)]
  have to: "v3_to t = Some (target e)" "target e \<noteq> []"
    and src: "source e = or_else (v3_from t) ''initial''" by simp_all
  from to assms(1) have "target e \<in> set (statesV3 ts)"
    unfolding set_statesV3 by blast
  moreover have "source e \<in> set (statesV3 ts)"
  proof (cases "truthy (v3_from t)")
    case True
    then obtain f where "v3_from t = Some f" "f \<noteq> []"
      by (auto simp: truthy_def split: option.splits)
    with src assms(1) show ?thesis
      unfolding set_statesV3 by (auto simp: or_else_def)
  next
    case False
    then have "source e = ''initial''"
      using src by (auto simp: truthy_def or_else_def split: option.splits)
    with False assms(1) show ?thesis
      unfolding set_statesV3 by auto
  qed
  ultimately show ?thesis by simp
qed

text \<open>
  Claim C2, as stated, fails for the legacy format: the nodes are the declared states
  and nothing else. A document that declares the state \<open>a\<close> and has a transition from
  \<open>a\<close> to \<open>b\<close> gets the one node \<open>a\<close> and an edge whose target \<open>b\<close> is no node.
\<close>

theorem undeclared_target_has_no_node:
  "(case parseEdn example_undeclared of
      Inl e \<Rightarrow> False
    | Inr p \<Rightarrow> map node_id (nodes (generateGraphData p)) = [''a'']
             \<and> map source (edges (generateGraphData p)) = [''a'']
             \<and> map target (edges (generateGraphData p)) = [''b''])"
  by code_simp

text \<open>
  Claim C2, amended. In the modern format every edge has its source and its target among
  the nodes. In the legacy format the nodes are exactly the declared states, in their
  order, and every edge runs from a from-state of a transition to the target of that
  transition; so an endpoint is a node when, and only when, it is declared.
\<close>

theorem edge_endpoints_are_nodes:
  "(\<forall>e \<in> set (edges (generateV3GraphData p)).
       source e \<in> set (map node_id (nodes (generateV3GraphData p)))
       \<and> target e \<in> set (map node_id (nodes (generateV3GraphData p))))
   \<and> map node_id (nodes (generateV2GraphData p))
       = (case process_states p of None \<Rightarrow> [] | Some l \<Rightarrow> l)
   \<and> (\<forall>e \<in> set (edges (generateV2GraphData p)).
       \<exists>t \<in> set (case process_transitions p of None \<Rightarrow> [] | Some l \<Rightarrow> l).
         source e \<in> set (fromStates t) \<and> target e = transition_to t)"
proof (intro conjI ballI)
  fix e assume e: "e \<in> set (edges (generateV3GraphData p))"
  then obtain i t where "t \<in> set (case transitions p of None \<Rightarrow> [] | Some l \<Rightarrow> l)"
    and "e \<in> set (edgesV3_of (i, t))"
    using edges_V3_cases by blast
  from source_is_node_V3[OF this]
  show "source e \<in> set (map node_id (nodes (generateV3GraphData p)))"
    and "target e \<in> set (map node_id (nodes (generateV3GraphData p)))"
    unfolding node_ids_V3 by simp_all
next
  show "map node_id (nodes (generateV2GraphData p))
       = (case process_states p of None \<Rightarrow> [] | Some l \<Rightarrow> l)"
    by (rule node_ids_V2)
next
  fix e assume "e \<in> set (edges (generateV2GraphData p))"
  then obtain t where "t \<in> set (case process_transitions p of None \<Rightarrow> [] | Some l \<Rightarrow> l)"
    and "e \<in> set (edgesV2_of t)"
    by (auto simp: generateV2GraphData_def Let_def)
  with edgesV2_of_endpoints[of e t]
  show "\<exists>t \<in> set (case process_transitions p of None \<Rightarrow> [] | Some l \<Rightarrow> l).
         source e \<in> set (fromStates t) \<and> target e = transition_to t"
    by blast
qed

text \<open>
  The first edge of a modern process with an entry transition.
\<close>

theorem edge_endpoints_are_nodes_witness:
  "edges (generateV3GraphData example_v3_process) \<noteq> []
   \<and> source (hd (edges (generateV3GraphData example_v3_process)))
        \<in> set (map node_id (nodes (generateV3GraphData example_v3_process)))
   \<and> target (hd (edges (generateV3GraphData example_v3_process)))
        \<in> set (map node_id (nodes (generateV3GraphData example_v3_process)))"
proof -
  have a: "edges (generateV3GraphData example_v3_process) \<noteq> []" by code_simp
  then have "hd (edges (generateV3GraphData example_v3_process))
             \<in> set (edges (generateV3GraphData example_v3_process))"
    by simp
  with edge_endpoints_are_nodes[of example_v3_process, THEN conjunct1] a
  show ?thesis by blast
qed




subsection \<open>Levels\<close>

lemma map_of_map_set_new:
  "map_of L k = Some v \<Longrightarrow> \<not> has L t \<Longrightarrow> map_of (map_set t x L) k = Some v"
  by (simp add: map_set_def)

lemma assign_levels_preserves:
  "map_of L k = Some v \<Longrightarrow> map_of (fst (assign_levels lv tg (L, Q))) k = Some v"
  by (induction tg arbitrary: L Q) (simp_all add: map_of_map_set_new)

lemma bfsV3_preserves:
  "map_of L k = Some v \<Longrightarrow> map_of (bfsV3 ts Q V L) k = Some v"
proof (induction ts Q V L rule: bfsV3.induct)
  case (1 ts visited levels)
  then show ?case by simp
next
  case (2 ts currentState queue visited levels)
  show ?case
  proof (cases "currentState \<in> set visited")
    case True
    with 2 show ?thesis by simp
  next
    case False
    obtain L' Q' where a: "assign_levels (get_or_0 levels currentState)
        (targetsV3 ts currentState) (levels, queue) = (L', Q')"
      by (cases "assign_levels (get_or_0 levels currentState)
        (targetsV3 ts currentState) (levels, queue)")
    from assign_levels_preserves[OF "2.prems", of "get_or_0 levels currentState"
        "targetsV3 ts currentState" queue] a
    have "map_of L' k = Some v" by simp
    from "2.IH"(2)[OF False a[symmetric] this] False a show ?thesis by simp
  qed
qed

lemma searchV3_initial: "map_of (searchV3 ts) ''initial'' = Some (Num 0)"
  unfolding searchV3_def by (rule bfsV3_preserves) (simp add: map_set_def has_def)

lemma levelV3_initial: "levelV3 ''initial'' ts = Num 0"
  using searchV3_initial[of ts]
  by (simp add: levelV3_def levelsV3_def Let_def has_def get_or_0_def)

lemma node_y_initial:
  "snd (getImprovedTreePosition ''initial'' ts states) = Num 100"
  by (simp add: getImprovedTreePosition_def Let_def levelV3_initial)




text \<open>
  Claim C3 asks for a finite level for every node of a cycle. In the legacy format the
  search starts from the declared states that no transition targets. In the cycle
  \<open>A \<rightarrow> B\<close>, \<open>B \<rightarrow> A\<close> there is none, the level map stays empty, and "one beyond the
  maximum" is \<open>Math.max() + 1\<close>, which is \<open>-Infinity\<close>: both nodes get the level and the
  vertical coordinate \<open>-Infinity\<close>.
\<close>

theorem cycle_level_is_negative_infinity:
  "(case parseEdn example_cycle of
      Inl e \<Rightarrow> False
    | Inr p \<Rightarrow>
        process_states p = Some [''A'', ''B'']
        \<and> map (\<lambda>t. (fromStates t, transition_to t)) (the (process_transitions p))
            = [([''A''], ''B''), ([''B''], ''A'')]
        \<and> map (\<lambda>s. levelV2 s (the (process_transitions p)) [''A'', ''B'']) [''A'', ''B'']
            = [NegInf, NegInf]
        \<and> map node_y (nodes (generateGraphData p)) = [NegInf, NegInf])"
  by code_simp




subsection \<open>Positions\<close>

lemma nonneg_map_set:
  "nonneg_levels m \<Longrightarrow> 0 \<le> l \<Longrightarrow> nonneg_levels (map_set k (Num l) m)"
  by (auto simp: nonneg_levels_def map_set_def split: if_splits)

lemma nonneg_lookup:
  "nonneg_levels m \<Longrightarrow> map_of m k = Some v \<Longrightarrow> \<exists>l \<ge> 0. v = Num l"
  by (auto simp: nonneg_levels_def dest!: map_of_SomeD)

lemma nonneg_get_or_0: "nonneg_levels m \<Longrightarrow> \<exists>l \<ge> 0. get_or_0 m k = Num l"
  by (auto simp: get_or_0_def dest: nonneg_lookup split: option.splits)

lemma nonneg_assign:
  "nonneg_levels L \<Longrightarrow> 0 \<le> l \<Longrightarrow> nonneg_levels (fst (assign_levels (Num l) tg (L, Q)))"
  by (induction tg arbitrary: L Q) (simp_all add: nonneg_map_set)

lemma nonneg_bfsV3: "nonneg_levels L \<Longrightarrow> nonneg_levels (bfsV3 ts Q V L)"
proof (induction ts Q V L rule: bfsV3.induct)
  case (1 ts visited levels)
  then show ?case by simp
next
  case (2 ts currentState queue visited levels)
  show ?case
  proof (cases "currentState \<in> set visited")
    case True
    with 2 show ?thesis by simp
  next
    case False
    obtain L' Q' where a: "assign_levels (get_or_0 levels currentState)
        (targetsV3 ts currentState) (levels, queue) = (L', Q')"
      by (cases "assign_levels (get_or_0 levels currentState)
        (targetsV3 ts currentState) (levels, queue)")
    from nonneg_get_or_0[OF "2.prems"] obtain l where l: "0 \<le> l"
      "get_or_0 levels currentState = Num l" by blast
    from nonneg_assign[OF "2.prems" l(1), of "targetsV3 ts currentState" queue] a l(2)
    have "nonneg_levels L'" by simp
    from "2.IH"(2)[OF False a[symmetric] this] False a show ?thesis by simp
  qed
qed

lemma nonneg_bfsV2: "nonneg_levels L \<Longrightarrow> nonneg_levels (bfsV2 ts Q V L)"
proof (induction ts Q V L rule: bfsV2.induct)
  case (1 ts visited levels)
  then show ?case by simp
next
  case (2 ts currentState queue visited levels)
  show ?case
  proof (cases "currentState \<in> set visited")
    case True
    with 2 show ?thesis by simp
  next
    case False
    obtain L' Q' where a: "assign_levels (get_or_0 levels currentState)
        (targetsV2 ts currentState) (levels, queue) = (L', Q')"
      by (cases "assign_levels (get_or_0 levels currentState)
        (targetsV2 ts currentState) (levels, queue)")
    from nonneg_get_or_0[OF "2.prems"] obtain l where l: "0 \<le> l"
      "get_or_0 levels currentState = Num l" by blast
    from nonneg_assign[OF "2.prems" l(1), of "targetsV2 ts currentState" queue] a l(2)
    have "nonneg_levels L'" by simp
    from "2.IH"(2)[OF False a[symmetric] this] False a show ?thesis by simp
  qed
qed

lemma nonneg_roots:
  "nonneg_levels m \<Longrightarrow> nonneg_levels (foldl (\<lambda>m r. map_set r (Num 0) m) m roots)"
  by (induction roots arbitrary: m) (simp_all add: nonneg_map_set)

lemma nonneg_searchV3: "nonneg_levels (searchV3 ts)"
  unfolding searchV3_def
  by (rule nonneg_bfsV3) (simp add: nonneg_levels_def map_set_def has_def)

lemma nonneg_searchV2: "nonneg_levels (searchV2 ts states)"
  unfolding searchV2_def Let_def
  by (rule nonneg_bfsV2, rule nonneg_roots) (simp add: nonneg_levels_def)

lemma indexOf_found:
  "x \<in> set xs \<Longrightarrow> 0 \<le> indexOf xs x \<and> indexOf xs x < int (length xs)
                  \<and> xs ! nat (indexOf xs x) = x"
proof (induction xs)
  case Nil
  then show ?case by simp
next
  case (Cons y ys)
  show ?case
  proof (cases "x = y")
    case True
    then show ?thesis by simp
  next
    case False
    with Cons.prems have "x \<in> set ys" by simp
    from Cons.IH[OF this] False show ?thesis
      by (simp add: Let_def nat_add_distrib)
  qed
qed

lemma centre_arith:
  "real_of_int (i * 280 + (400 - ((int k - 1) * 280) div 2))
   = 400 + (real_of_int i - (real k - 1) / 2) * 280"
proof -
  have "((int k - 1) * 280) div 2 = (int k - 1) * 140" by simp
  then show ?thesis by (simp add: field_simps)
qed


lemma reached_levelV3:
  assumes "has (searchV3 ts) s"
  shows "\<exists>l \<ge> 0. map_of (searchV3 ts) s = Some (Num l) \<and> levelsV3 s ts = searchV3 ts
                \<and> levelV3 s ts = Num l"
proof -
  from assms obtain v where v: "map_of (searchV3 ts) s = Some v"
    by (auto simp: has_def)
  from nonneg_lookup[OF nonneg_searchV3 v] obtain l where "0 \<le> l" "v = Num l" by blast
  with v assms show ?thesis
    by (simp add: levelsV3_def levelV3_def Let_def get_or_0_def)
qed

lemma reached_levelV2:
  assumes "has (searchV2 ts states) s"
  shows "\<exists>l \<ge> 0. map_of (searchV2 ts states) s = Some (Num l)
                \<and> levelsV2 s ts states = searchV2 ts states
                \<and> levelV2 s ts states = Num l"
proof -
  from assms obtain v where v: "map_of (searchV2 ts states) s = Some v"
    by (auto simp: has_def)
  from nonneg_lookup[OF nonneg_searchV2 v] obtain l where "0 \<le> l" "v = Num l" by blast
  with v assms show ?thesis
    by (simp add: levelsV2_def levelV2_def Let_def get_or_0_def)
qed

text \<open>
  Claim C8, as stated, fails. For the legacy process with the states \<open>a\<close>, \<open>b\<close>, \<open>c\<close> and
  the one transition from \<open>a\<close> to \<open>c\<close>, the layers are \<open>a, b\<close> and \<open>c\<close>, and the nodes get
  \<open>x = 100, 350\<close> and \<open>x = 100\<close>: no axis and spacing give these by the centring formula.
  The node of layer 0 has \<open>y = 50\<close>, and in the modern layout \<open>y = 100\<close>, which no row
  height gives as \<open>0 * rowHeight\<close>.
\<close>

theorem positions_do_not_follow_formula:
  "\<not> (\<exists>axisX spacingX. \<forall>s \<in> set example_flat_states.
         spec_x axisX spacingX
           (length (statesAtLevelV2 s example_flat_transitions example_flat_states))
           (indexOf (statesAtLevelV2 s example_flat_transitions example_flat_states) s)
           (fst (getVerticalTreePositionV2 s example_flat_transitions example_flat_states)))
   \<and> \<not> (\<exists>rowHeight. \<forall>s \<in> set example_flat_states.
         spec_y rowHeight (levelV2 s example_flat_transitions example_flat_states)
           (snd (getVerticalTreePositionV2 s example_flat_transitions example_flat_states)))
   \<and> \<not> (\<exists>rowHeight.
         spec_y rowHeight (levelV3 ''initial'' example_two_entries)
           (snd (getImprovedTreePosition ''initial'' example_two_entries
                  (statesV3 example_two_entries))))"
proof -
  have v: "map (\<lambda>s. (length (statesAtLevelV2 s example_flat_transitions example_flat_states),
                      indexOf (statesAtLevelV2 s example_flat_transitions example_flat_states) s,
                      getVerticalTreePositionV2 s example_flat_transitions example_flat_states,
                      levelV2 s example_flat_transitions example_flat_states))
             [''a'', ''b'', ''c'']
           = [(2, 0, (100, Num 50), Num 0), (2, 1, (350, Num 50), Num 0),
              (1, 0, (100, Num 200), Num 1)]"
    by code_simp
  have st: "example_flat_states = [''a'', ''b'', ''c'']" by (simp add: example_flat_states_def)
  have x: "\<not> (\<exists>axisX spacingX. \<forall>s \<in> set example_flat_states.
         spec_x axisX spacingX
           (length (statesAtLevelV2 s example_flat_transitions example_flat_states))
           (indexOf (statesAtLevelV2 s example_flat_transitions example_flat_states) s)
           (fst (getVerticalTreePositionV2 s example_flat_transitions example_flat_states)))"
  proof
    assume "\<exists>axisX spacingX. \<forall>s \<in> set example_flat_states.
         spec_x axisX spacingX
           (length (statesAtLevelV2 s example_flat_transitions example_flat_states))
           (indexOf (statesAtLevelV2 s example_flat_transitions example_flat_states) s)
           (fst (getVerticalTreePositionV2 s example_flat_transitions example_flat_states))"
    then obtain axisX spacingX where
      "spec_x axisX spacingX 2 0 100" "spec_x axisX spacingX 2 1 350" "spec_x axisX spacingX 1 0 100"
      using v unfolding st by auto
    then show False by (simp add: spec_x_def)
  qed
  have y: "\<not> (\<exists>rowHeight. \<forall>s \<in> set example_flat_states.
         spec_y rowHeight (levelV2 s example_flat_transitions example_flat_states)
           (snd (getVerticalTreePositionV2 s example_flat_transitions example_flat_states)))"
  proof
    assume "\<exists>rowHeight. \<forall>s \<in> set example_flat_states.
         spec_y rowHeight (levelV2 s example_flat_transitions example_flat_states)
           (snd (getVerticalTreePositionV2 s example_flat_transitions example_flat_states))"
    then obtain rowHeight where "spec_y rowHeight (Num 0) (Num 50)"
      using v unfolding st by auto
    then show False by (simp add: spec_y_def)
  qed
  have z: "\<not> (\<exists>rowHeight.
         spec_y rowHeight (levelV3 ''initial'' example_two_entries)
           (snd (getImprovedTreePosition ''initial'' example_two_entries
                  (statesV3 example_two_entries))))"
    by (simp add: levelV3_initial node_y_initial spec_y_def)
  from x y z show ?thesis by blast
qed

text \<open>
  Claim C8, amended, for a state that the search reaches. Its level \<open>l\<close> is a number
  that is not negative, its layer is the list of the reached states of level \<open>l\<close> in node
  order, and its index \<open>i\<close> in the layer is a valid index. In the modern layout
  \<open>x = 400 + (i - (k - 1) / 2) * 280\<close> for a layer of \<open>k\<close> nodes, and \<open>y = l * 180 + 100\<close>.
  In the legacy layout the nodes of a layer are aligned to the left, \<open>x = 100 + i * 250\<close>,
  and \<open>y = l * 150 + 50\<close>.
\<close>

theorem reached_positions:
  "(has (searchV3 ts) s \<and> s \<in> set states \<longrightarrow>
      (\<exists>l i. 0 \<le> l \<and> levelV3 s ts = Num l
         \<and> statesAtLevelV3 s ts states
             = filter (\<lambda>s'. map_of (searchV3 ts) s' = Some (Num l)) states
         \<and> 0 \<le> i \<and> i < int (length (statesAtLevelV3 s ts states))
         \<and> statesAtLevelV3 s ts states ! nat i = s
         \<and> spec_x 400 280 (length (statesAtLevelV3 s ts states)) i
               (fst (getImprovedTreePosition s ts states))
         \<and> snd (getImprovedTreePosition s ts states) = Num (l * 180 + 100)))
   \<and> (has (searchV2 tv states) s \<and> s \<in> set states \<longrightarrow>
      (\<exists>l i. 0 \<le> l \<and> levelV2 s tv states = Num l
         \<and> statesAtLevelV2 s tv states
             = filter (\<lambda>s'. map_of (searchV2 tv states) s' = Some (Num l)) states
         \<and> 0 \<le> i \<and> i < int (length (statesAtLevelV2 s tv states))
         \<and> statesAtLevelV2 s tv states ! nat i = s
         \<and> fst (getVerticalTreePositionV2 s tv states) = 100 + i * 250
         \<and> snd (getVerticalTreePositionV2 s tv states) = Num (l * 150 + 50)))"
proof (intro conjI impI)
  assume a: "has (searchV3 ts) s \<and> s \<in> set states"
  from reached_levelV3[of ts s] a obtain l where l: "0 \<le> l"
    "map_of (searchV3 ts) s = Some (Num l)" "levelsV3 s ts = searchV3 ts" "levelV3 s ts = Num l"
    by blast
  let ?layer = "statesAtLevelV3 s ts states"
  have layer: "?layer = filter (\<lambda>s'. map_of (searchV3 ts) s' = Some (Num l)) states"
    by (simp add: statesAtLevelV3_def l)
  with a l(2) have "s \<in> set ?layer" by simp
  from indexOf_found[OF this]
  have i: "0 \<le> indexOf ?layer s" "indexOf ?layer s < int (length ?layer)"
    "?layer ! nat (indexOf ?layer s) = s" by simp_all
  have x: "spec_x 400 280 (length ?layer) (indexOf ?layer s)
             (fst (getImprovedTreePosition s ts states))"
    unfolding spec_x_def getImprovedTreePosition_def Let_def fst_conv
    by (rule centre_arith)
  have y: "snd (getImprovedTreePosition s ts states) = Num (l * 180 + 100)"
    by (simp add: getImprovedTreePosition_def Let_def l)
  from l(1,4) layer i x y
  show "\<exists>l i. 0 \<le> l \<and> levelV3 s ts = Num l
         \<and> statesAtLevelV3 s ts states
             = filter (\<lambda>s'. map_of (searchV3 ts) s' = Some (Num l)) states
         \<and> 0 \<le> i \<and> i < int (length (statesAtLevelV3 s ts states))
         \<and> statesAtLevelV3 s ts states ! nat i = s
         \<and> spec_x 400 280 (length (statesAtLevelV3 s ts states)) i
               (fst (getImprovedTreePosition s ts states))
         \<and> snd (getImprovedTreePosition s ts states) = Num (l * 180 + 100)"
    by blast
next
  assume a: "has (searchV2 tv states) s \<and> s \<in> set states"
  from reached_levelV2[of tv states s] a obtain l where l: "0 \<le> l"
    "map_of (searchV2 tv states) s = Some (Num l)" "levelsV2 s tv states = searchV2 tv states"
    "levelV2 s tv states = Num l"
    by blast
  let ?layer = "statesAtLevelV2 s tv states"
  have layer: "?layer = filter (\<lambda>s'. map_of (searchV2 tv states) s' = Some (Num l)) states"
    by (simp add: statesAtLevelV2_def l)
  with a l(2) have "s \<in> set ?layer" by simp
  from indexOf_found[OF this]
  have i: "0 \<le> indexOf ?layer s" "indexOf ?layer s < int (length ?layer)"
    "?layer ! nat (indexOf ?layer s) = s" by simp_all
  have x: "fst (getVerticalTreePositionV2 s tv states) = 100 + indexOf ?layer s * 250"
    by (simp add: getVerticalTreePositionV2_def Let_def)
  have y: "snd (getVerticalTreePositionV2 s tv states) = Num (l * 150 + 50)"
    by (simp add: getVerticalTreePositionV2_def Let_def l)
  from l(1,4) layer i x y
  show "\<exists>l i. 0 \<le> l \<and> levelV2 s tv states = Num l
         \<and> statesAtLevelV2 s tv states
             = filter (\<lambda>s'. map_of (searchV2 tv states) s' = Some (Num l)) states
         \<and> 0 \<le> i \<and> i < int (length (statesAtLevelV2 s tv states))
         \<and> statesAtLevelV2 s tv states ! nat i = s
         \<and> fst (getVerticalTreePositionV2 s tv states) = 100 + i * 250
         \<and> snd (getVerticalTreePositionV2 s tv states) = Num (l * 150 + 50)"
    by blast
qed

text \<open>
  The second node of the second layer of a modern process, and a root of a legacy one.
\<close>

theorem reached_positions_witness:
  "has (searchV3 example_two_entries) ''pending''
   \<and> ''pending'' \<in> set (statesV3 example_two_entries)
   \<and> getImprovedTreePosition ''pending'' example_two_entries (statesV3 example_two_entries)
       = (540, Num 280)
   \<and> statesAtLevelV3 ''pending'' example_two_entries (statesV3 example_two_entries)
       = [''inquiry'', ''pending'']
   \<and> spec_x 400 280 2 1 540
   \<and> has (searchV2 example_flat_transitions example_flat_states) ''b''
   \<and> ''b'' \<in> set example_flat_states
   \<and> (\<exists>l i. levelV2 ''b'' example_flat_transitions example_flat_states = Num l
         \<and> fst (getVerticalTreePositionV2 ''b'' example_flat_transitions example_flat_states)
             = 100 + i * 250
         \<and> snd (getVerticalTreePositionV2 ''b'' example_flat_transitions example_flat_states)
             = Num (l * 150 + 50))"
proof -
  have a: "has (searchV3 example_two_entries) ''pending''
           \<and> ''pending'' \<in> set (statesV3 example_two_entries)"
    by code_simp
  have b: "getImprovedTreePosition ''pending'' example_two_entries (statesV3 example_two_entries)
           = (540, Num 280)"
    by code_simp
  have c: "statesAtLevelV3 ''pending'' example_two_entries (statesV3 example_two_entries)
           = [''inquiry'', ''pending'']"
    by code_simp
  have d: "has (searchV2 example_flat_transitions example_flat_states) ''b''
           \<and> ''b'' \<in> set example_flat_states"
    by code_simp
  from reached_positions[where ts = example_two_entries and s = "''pending''"
      and states = "statesV3 example_two_entries", THEN conjunct1, THEN mp, OF a]
  obtain l i where "0 \<le> i" "i < int (length (statesAtLevelV3 ''pending'' example_two_entries
        (statesV3 example_two_entries)))"
    "statesAtLevelV3 ''pending'' example_two_entries (statesV3 example_two_entries) ! nat i
       = ''pending''"
    "spec_x 400 280 (length (statesAtLevelV3 ''pending'' example_two_entries
        (statesV3 example_two_entries))) i
       (fst (getImprovedTreePosition ''pending'' example_two_entries
              (statesV3 example_two_entries)))"
    by blast
  then have i: "0 \<le> i" "i < 2" "[''inquiry'', ''pending''] ! nat i = ''pending''"
    and sx: "spec_x 400 280 2 i 540"
    unfolding b c by (simp_all add: numeral_2_eq_2)
  from i have "i = 1" by (cases "i = 0") simp_all
  with sx have e: "spec_x 400 280 2 1 540" by simp
  from reached_positions[where tv = example_flat_transitions and s = "''b''"
      and states = example_flat_states, THEN conjunct2, THEN mp, OF d]
  have f: "\<exists>l i. levelV2 ''b'' example_flat_transitions example_flat_states = Num l
         \<and> fst (getVerticalTreePositionV2 ''b'' example_flat_transitions example_flat_states)
             = 100 + i * 250
         \<and> snd (getVerticalTreePositionV2 ''b'' example_flat_transitions example_flat_states)
             = Num (l * 150 + 50)"
    by blast
  from a b c d e f show ?thesis by blast
qed




subsection \<open>Where levels and colours are as intended\<close>

text \<open>
  The colour of an actor is one of the four colour strings unless the normalised name is
  a member that the colour table inherits. In the modern layout every state has a level that is a number
  and not negative, because the level map always holds \<open>initial\<close>; in the legacy layout
  the same holds as soon as one declared state is a root.
\<close>

lemma getActorColor_is_colour:
  assumes "replacePrefix ''actor.role/'' (toLowerCase actor) \<notin> set object_prototype_members"
  shows "getActorColor actor
         \<in> {JString ''#F97316'', JString ''#EC4899'', JString ''#10B981'', JString ''#6B7280''}"
  using assms by (simp add: getActorColor_def Let_def ACTOR_COLORS_def value_or_def)

lemma foldr_js_max_nonneg:
  "\<forall>v \<in> set xs. \<exists>l \<ge> 0. v = Num l \<Longrightarrow> xs \<noteq> [] \<Longrightarrow> \<exists>l \<ge> 0. foldr js_max xs NegInf = Num l"
proof (induction xs)
  case Nil
  then show ?case by simp
next
  case (Cons x xs)
  from Cons.prems obtain a where a: "0 \<le> a" "x = Num a" by auto
  show ?case
  proof (cases "xs = []")
    case True
    with a show ?thesis by simp
  next
    case False
    with Cons obtain b where "0 \<le> b" "foldr js_max xs NegInf = Num b" by auto
    with a show ?thesis by simp
  qed
qed

lemma Math_max_nonneg:
  "nonneg_levels m \<Longrightarrow> m \<noteq> [] \<Longrightarrow> \<exists>l \<ge> 0. Math_max (map snd m) = Num l"
  unfolding Math_max_def by (rule foldr_js_max_nonneg) (auto simp: nonneg_levels_def)

lemma get_or_0_map_set_new: "\<not> has m k \<Longrightarrow> get_or_0 (map_set k v m) k = v"
  by (simp add: get_or_0_def map_set_def has_def map_add_def)

lemma levelV3_finite: "\<exists>l \<ge> 0. levelV3 s ts = Num l"
proof (cases "has (searchV3 ts) s")
  case True
  from reached_levelV3[OF this] show ?thesis by blast
next
  case False
  have "searchV3 ts \<noteq> []" using searchV3_initial[of ts] by auto
  from Math_max_nonneg[OF nonneg_searchV3 this]
  obtain m where "0 \<le> m" "Math_max (map snd (searchV3 ts)) = Num m" by blast
  with False show ?thesis
    by (simp add: levelV3_def levelsV3_def Let_def get_or_0_map_set_new)
qed

lemma bfsV2_preserves:
  "map_of L k = Some v \<Longrightarrow> map_of (bfsV2 ts Q V L) k = Some v"
proof (induction ts Q V L rule: bfsV2.induct)
  case (1 ts visited levels)
  then show ?case by simp
next
  case (2 ts currentState queue visited levels)
  show ?case
  proof (cases "currentState \<in> set visited")
    case True
    with 2 show ?thesis by simp
  next
    case False
    obtain L' Q' where a: "assign_levels (get_or_0 levels currentState)
        (targetsV2 ts currentState) (levels, queue) = (L', Q')"
      by (cases "assign_levels (get_or_0 levels currentState)
        (targetsV2 ts currentState) (levels, queue)")
    from assign_levels_preserves[OF "2.prems", of "get_or_0 levels currentState"
        "targetsV2 ts currentState" queue] a
    have "map_of L' k = Some v" by simp
    from "2.IH"(2)[OF False a[symmetric] this] False a show ?thesis by simp
  qed
qed

lemma has_roots:
  "has m r \<or> r \<in> set roots \<Longrightarrow> has (foldl (\<lambda>m r. map_set r (Num 0) m) m roots) r"
  by (induction roots arbitrary: m) (auto simp: has_keys keys_map_set)

lemma searchV2_nonempty:
  assumes "rootStates ts states \<noteq> []"
  shows "searchV2 ts states \<noteq> []"
proof -
  from assms obtain r where "r \<in> set (rootStates ts states)" by (cases "rootStates ts states") auto
  then have "has (foldl (\<lambda>m r. map_set r (Num 0) m) [] (rootStates ts states)) r"
    by (simp add: has_roots)
  then obtain v where "map_of (foldl (\<lambda>m r. map_set r (Num 0) m) [] (rootStates ts states)) r
      = Some v"
    by (auto simp: has_def)
  from bfsV2_preserves[OF this] have "map_of (searchV2 ts states) r = Some v"
    by (simp add: searchV2_def Let_def)
  then show ?thesis by auto
qed

lemma levelV2_finite:
  assumes "rootStates ts states \<noteq> []"
  shows "\<exists>l \<ge> 0. levelV2 s ts states = Num l"
proof (cases "has (searchV2 ts states) s")
  case True
  from reached_levelV2[OF this] show ?thesis by blast
next
  case False
  from Math_max_nonneg[OF nonneg_searchV2 searchV2_nonempty[OF assms]]
  obtain m where "0 \<le> m" "Math_max (map snd (searchV2 ts states)) = Num m" by blast
  with False show ?thesis
    by (simp add: levelV2_def levelsV2_def Let_def get_or_0_map_set_new)
qed


end
